theory Spec2Isabelle
  imports Complex_Main "HOL-Library.Multiset" "HOL-Library.Log_Nat"
begin

section \<open>Numbers of the Go runtime\<close>

text \<open>
  Go's \<open>int\<close> is a 64-bit two's complement integer on the platforms the service runs on.
  Values are kept as \<open>int\<close>; \<open>wrap64\<close> is applied wherever the source adds or subtracts.
\<close>

definition wrap64 :: "int \<Rightarrow> int" where
  "wrap64 n = (n + 2 ^ 63) mod 2 ^ 64 - 2 ^ 63"

text \<open>
  \<open>float64(n)\<close> for an \<open>int\<close>: exact up to 53 significant bits, otherwise rounded to the
  nearest value with a 53-bit significand, ties to even. The result is always a whole
  number, so it is kept as an \<open>int\<close> and embedded into \<open>real\<close> where the source holds a
  \<open>float64\<close>.
\<close>

definition round_even :: "int \<Rightarrow> nat \<Rightarrow> int" where
  "round_even a e =
     (let q = a div 2 ^ e; r = a mod 2 ^ e; h = 2 ^ (e - 1)
      in (if h < r \<or> (r = h \<and> odd q) then q + 1 else q) * 2 ^ e)"

definition float64 :: "int \<Rightarrow> int" where
  "float64 n =
     (if \<bar>n\<bar> \<le> 2 ^ 53 then n
      else sgn n * round_even \<bar>n\<bar> (nat (bitlen \<bar>n\<bar> - 53)))"

section \<open>Data model\<close>

record Store =
  StoreID :: string
  StoreName :: string
  AreaCode :: string

record Visit =
  Visit_StoreID :: string
  ImageURLs :: "string list"
  VisitTime :: string

record SubmitJobRequest =
  Count :: int
  Visits :: "Visit list"

record StoreError =
  Err_StoreID :: string
  Error :: string

record ImageResult =
  Res_StoreID :: string
  Res_StoreName :: string
  Res_AreaCode :: string
  ImageURL :: string
  Width :: int
  Height :: int
  Perimeter :: real

text \<open>
  A \<open>time.Time\<close> is \<open>None\<close> for Go's zero value and \<open>Some t\<close> for the instant \<open>t\<close> read
  from the clock. The mutex \<open>mu\<close> of \<open>JobData\<close> has no field here: every critical
  section of the source is one atomic step of the model below.
\<close>

record JobData =
  ID :: int
  Status :: string
  Results :: "ImageResult list"
  Errors :: "StoreError list"
  CreatedAt :: "nat option"
  CompletedAt :: "nat option"

definition storeMaster :: "string \<rightharpoonup> Store" where
  "storeMaster = map_of
     [(''S00339218'', \<lparr>StoreID = ''S00339218'', StoreName = ''Store A'', AreaCode = ''NYC''\<rparr>),
      (''S01408764'', \<lparr>StoreID = ''S01408764'', StoreName = ''Store B'', AreaCode = ''LA''\<rparr>)]"

text \<open>\<open>getStore\<close> returns \<open>(store, ok)\<close>; \<open>None\<close> stands for \<open>ok = false\<close>.\<close>

definition getStore :: "string \<Rightarrow> Store option" where
  "getStore storeID = storeMaster storeID"

section \<open>Fetching an image\<close>

text \<open>
  The network and the image decoders are the environment. For the goroutine with
  identifier \<open>g\<close> fetching \<open>url\<close>, the world answers what the library calls of
  \<open>downloadAndGetDimensions\<close> return: \<open>http.NewRequest\<close> fails, \<open>client.Do\<close> fails (the
  10 second timeout included), or a response arrives with a status code and the outcome
  of \<open>image.Decode\<close>: an error, or the bounds \<open>(Min.X, Min.Y, Max.X, Max.Y)\<close> of the image.
  The goroutine identifier lets two fetches of one URL differ. Creating the directory
  \<open>temp_images\<close> and the random sleep touch nothing a job holds and are left out.
\<close>

datatype http_outcome =
    NewRequestError string
  | DoError string
  | Response int "string + (int \<times> int \<times> int \<times> int)"

type_synonym world = "nat \<Rightarrow> string \<Rightarrow> http_outcome"

fun digit_char :: "nat \<Rightarrow> char" where
  "digit_char d = char_of (48 + d)"

fun digits_of :: "nat \<Rightarrow> string" where
  "digits_of n = (if n < 10 then [digit_char n] else digits_of (n div 10) @ [digit_char (n mod 10)])"

declare digits_of.simps [simp del]

text \<open>\<open>strconv.Itoa\<close>, also what \<open>%d\<close> prints.\<close>

definition itoa :: "int \<Rightarrow> string" where
  "itoa i = (if i < 0 then CHR ''-'' # digits_of (nat (- i)) else digits_of (nat i))"

definition downloadAndGetDimensions :: "world \<Rightarrow> nat \<Rightarrow> string \<Rightarrow> string + (int \<times> int)" where
  "downloadAndGetDimensions w g url =
     (case w g url of
        NewRequestError e \<Rightarrow> Inl (''error creating request: '' @ e)
      | DoError e \<Rightarrow> Inl (''error downloading image: '' @ e)
      | Response code img \<Rightarrow>
          if code \<noteq> 200 then Inl (''error downloading image: status code '' @ itoa code)
          else (case img of
                  Inl e \<Rightarrow> Inl (''error decoding image: '' @ e)
                | Inr (minX, minY, maxX, maxY) \<Rightarrow>
                    Inr (wrap64 (maxX - minX), wrap64 (maxY - minY))))"

definition calculateImagePerimeter :: "world \<Rightarrow> nat \<Rightarrow> string \<Rightarrow> string \<Rightarrow> string + ImageResult" where
  "calculateImagePerimeter w g storeID imageURL =
     (case getStore storeID of
        None \<Rightarrow> Inl (''store ID '' @ storeID @ '' does not exist'')
      | Some store \<Rightarrow>
          (case downloadAndGetDimensions w g imageURL of
             Inl err \<Rightarrow> Inl err
           | Inr (width, height) \<Rightarrow>
               Inr \<lparr>Res_StoreID = StoreID store, Res_StoreName = StoreName store,
                    Res_AreaCode = AreaCode store, ImageURL = imageURL,
                    Width = width, Height = height,
                    Perimeter = 2 * real_of_int (float64 (wrap64 (width + height)))\<rparr>))"

section \<open>processJob as an interleaving of the orchestrator and its goroutines\<close>

text \<open>
  One call of \<open>processJob\<close> is a process: the job it mutates, the control point of the
  orchestrating goroutine, and the image goroutines launched and not yet finished (what
  the \<open>WaitGroup\<close> counts). Control points of the orchestrator:
  \<^item> \<open>Scanning vs\<close>: at the head of the loop over the visits, \<open>vs\<close> still to come;
  \<^item> \<open>Launching sid us vs\<close>: in the inner loop of a visit of store \<open>sid\<close>, the URLs \<open>us\<close>
    still to launch, the visits \<open>vs\<close> after it;
  \<^item> \<open>Aborting\<close>: after the critical section of the unknown-store branch, before
    \<open>job.CompletedAt = time.Now()\<close> and \<open>return\<close>;
  \<^item> \<open>Waiting\<close>: at \<open>wg.Wait()\<close>;
  \<^item> \<open>Returned\<close>: \<open>processJob\<close> has returned.
\<close>

datatype orch_pc =
    Scanning "Visit list"
  | Launching string "string list" "Visit list"
  | Aborting
  | Waiting
  | Returned

type_synonym goroutine = "nat \<times> string \<times> string"

record proc =
  job :: JobData
  pc :: orch_pc
  pending :: "goroutine list"
  spawned :: nat
  clock :: nat

datatype action = Orch | Unit nat

text \<open>
  A step of the orchestrator. The store check and the critical section that follows it
  are one step (the check reads only the immutable store master); every \<open>go\<close> statement
  is a step; \<open>wg.Wait()\<close> with the final critical section is a step that is enabled only
  when no goroutine is pending.
\<close>

definition orch_step :: "proc \<Rightarrow> proc option" where
  "orch_step p =
     (case pc p of
        Scanning [] \<Rightarrow> Some (p\<lparr>pc := Waiting\<rparr>)
      | Scanning (visit # vs) \<Rightarrow>
          (case getStore (Visit_StoreID visit) of
             None \<Rightarrow>
               Some (p\<lparr>job := (job p)\<lparr>Status := ''failed'',
                                       Errors := Errors (job p) @
                                         [\<lparr>Err_StoreID = Visit_StoreID visit,
                                           Error = ''Store ID does not exist''\<rparr>]\<rparr>,
                       pc := Aborting\<rparr>)
           | Some _ \<Rightarrow> Some (p\<lparr>pc := Launching (Visit_StoreID visit) (ImageURLs visit) vs\<rparr>))
      | Launching storeID [] vs \<Rightarrow> Some (p\<lparr>pc := Scanning vs\<rparr>)
      | Launching storeID (imageURL # us) vs \<Rightarrow>
          Some (p\<lparr>pending := pending p @ [(spawned p, storeID, imageURL)],
                  spawned := Suc (spawned p),
                  pc := Launching storeID us vs\<rparr>)
      | Aborting \<Rightarrow> Some (p\<lparr>job := (job p)\<lparr>CompletedAt := Some (clock p)\<rparr>, pc := Returned\<rparr>)
      | Waiting \<Rightarrow>
          (if pending p = [] then
             Some (p\<lparr>job := (job p)\<lparr>Status := (if Status (job p) \<noteq> ''failed'' then ''completed''
                                                 else Status (job p)),
                                     CompletedAt := Some (clock p)\<rparr>,
                     pc := Returned\<rparr>)
           else None)
      | Returned \<Rightarrow> None)"

text \<open>
  A step of an image goroutine: it computes \<open>calculateImagePerimeter\<close>, which reads no
  shared state, records the outcome in its critical section and leaves the wait group.
\<close>

definition unit_step :: "world \<Rightarrow> proc \<Rightarrow> nat \<Rightarrow> proc option" where
  "unit_step w p g =
     (case find (\<lambda>t. fst t = g) (pending p) of
        None \<Rightarrow> None
      | Some (g', storeID, imageURL) \<Rightarrow>
          (case calculateImagePerimeter w g' storeID imageURL of
             Inl err \<Rightarrow>
               Some (p\<lparr>job := (job p)\<lparr>Status := ''failed'',
                                       Errors := Errors (job p) @
                                         [\<lparr>Err_StoreID = storeID, Error = err\<rparr>]\<rparr>,
                       pending := remove1 (g', storeID, imageURL) (pending p)\<rparr>)
           | Inr result \<Rightarrow>
               Some (p\<lparr>job := (job p)\<lparr>Results := Results (job p) @ [result]\<rparr>,
                       pending := remove1 (g', storeID, imageURL) (pending p)\<rparr>)))"

text \<open>Every step takes time: the clock that \<open>time.Now()\<close> reads advances.\<close>

definition step :: "world \<Rightarrow> proc \<Rightarrow> action \<Rightarrow> proc option" where
  "step w p a =
     map_option (\<lambda>q. q\<lparr>clock := Suc (clock q)\<rparr>)
       (case a of Orch \<Rightarrow> orch_step p | Unit g \<Rightarrow> unit_step w p g)"

text \<open>A schedule picks who moves next; a schedule that picks a disabled action is no run.\<close>

fun run :: "world \<Rightarrow> proc \<Rightarrow> action list \<Rightarrow> proc option" where
  "run w p [] = Some p"
| "run w p (a # as) = (case step w p a of None \<Rightarrow> None | Some p' \<Rightarrow> run w p' as)"

text \<open>The job \<open>handleSubmitJob\<close> creates, and the process \<open>go processJob(job, req)\<close> starts.\<close>

definition newJob :: "int \<Rightarrow> nat \<Rightarrow> JobData" where
  "newJob jobID now =
     \<lparr>ID = jobID, Status = ''ongoing'', Results = [], Errors = [],
      CreatedAt = Some now, CompletedAt = None\<rparr>"

definition processJob :: "JobData \<Rightarrow> SubmitJobRequest \<Rightarrow> nat \<Rightarrow> proc" where
  "processJob j req now =
     \<lparr>job = j, pc = Scanning (Visits req), pending = [], spawned = 0, clock = now\<rparr>"

text \<open>Nothing can move any more: the orchestrator has returned and no goroutine is left.\<close>

definition final :: "proc \<Rightarrow> bool" where
  "final p \<longleftrightarrow> pc p = Returned \<and> pending p = []"

section \<open>The submission and status handlers\<close>

text \<open>
  A request body is a JSON value, or nothing when the body is empty or not JSON. An
  integer literal is \<open>JInt\<close>; a number literal with a fraction or an exponent is \<open>JFrac\<close>
  and keeps its text, since Go refuses it for an \<open>int\<close> field whatever its value.
\<close>

datatype json =
    JNull
  | JBool bool
  | JInt int
  | JFrac string
  | JStr string
  | JArr "json list"
  | JObj "(string \<times> json) list"

text \<open>
  What \<open>encoding/json\<close> does when it decodes into the request types. A key selects the
  field whose name it equals, otherwise the first field whose name it matches under the
  library's case folding \<open>eqFold\<close>, which is a parameter here. With
  \<open>DisallowUnknownFields\<close> a key that selects no field is an error. \<open>null\<close> leaves a
  string, an int or a struct as it is. \<open>None\<close> stands for \<open>err != nil\<close>.
\<close>

definition lookup_field :: "(string \<Rightarrow> string \<Rightarrow> bool) \<Rightarrow> string list \<Rightarrow> string \<Rightarrow> string option" where
  "lookup_field eqFold names key = (if key \<in> set names then Some key else find (eqFold key) names)"

fun decode_string :: "string \<Rightarrow> json \<Rightarrow> string option" where
  "decode_string cur JNull = Some cur"
| "decode_string cur (JStr s) = Some s"
| "decode_string cur _ = None"

fun decode_int :: "int \<Rightarrow> json \<Rightarrow> int option" where
  "decode_int cur JNull = Some cur"
| "decode_int cur (JInt n) = (if - (2 ^ 63) \<le> n \<and> n < 2 ^ 63 then Some n else None)"
| "decode_int cur _ = None"

text \<open>
  A slice being decoded into is its elements together with what its backing array still
  holds behind them. \<open>encoding/json\<close> decodes the elements of a JSON array one by one
  into the slots of the backing array, each on top of what the slot holds (the zero
  value for a slot never written), and then cuts the slice to the length of the array.
  So a key that occurs again decodes on top of what its earlier occurrences left. An
  empty array gives a fresh empty slice, \<open>null\<close> a nil slice.
\<close>

type_synonym 'a slice = "'a list \<times> 'a list"

fun decode_array :: "('a \<Rightarrow> json \<Rightarrow> 'a option) \<Rightarrow> 'a \<Rightarrow> 'a list \<Rightarrow> json list \<Rightarrow> 'a slice option" where
  "decode_array dec zero backing [] = Some ([], backing)"
| "decode_array dec zero backing (x # xs) =
     (case dec (case backing of [] \<Rightarrow> zero | e # _ \<Rightarrow> e) x of
        None \<Rightarrow> None
      | Some e' \<Rightarrow>
          (case decode_array dec zero (tl backing) xs of
             None \<Rightarrow> None
           | Some (es, rest) \<Rightarrow> Some (e' # es, rest)))"

fun decode_slice :: "('a \<Rightarrow> json \<Rightarrow> 'a option) \<Rightarrow> 'a \<Rightarrow> 'a slice \<Rightarrow> json \<Rightarrow> 'a slice option" where
  "decode_slice dec zero s JNull = Some ([], [])"
| "decode_slice dec zero s (JArr []) = Some ([], [])"
| "decode_slice dec zero s (JArr (x # xs)) = decode_array dec zero (fst s @ snd s) (x # xs)"
| "decode_slice dec zero s _ = None"

text \<open>The request types while they are decoded into: every slice with its backing array.\<close>

record Visit_mem =
  mem_StoreID :: string
  mem_ImageURLs :: "string slice"
  mem_VisitTime :: string

record Request_mem =
  mem_Count :: int
  mem_Visits :: "Visit_mem slice"

definition zero_Visit :: Visit_mem where
  "zero_Visit = \<lparr>mem_StoreID = [], mem_ImageURLs = ([], []), mem_VisitTime = []\<rparr>"

definition zero_Request :: Request_mem where
  "zero_Request = \<lparr>mem_Count = 0, mem_Visits = ([], [])\<rparr>"

definition Visit_of :: "Visit_mem \<Rightarrow> Visit" where
  "Visit_of v =
     \<lparr>Visit_StoreID = mem_StoreID v, ImageURLs = fst (mem_ImageURLs v), VisitTime = mem_VisitTime v\<rparr>"

definition Request_of :: "Request_mem \<Rightarrow> SubmitJobRequest" where
  "Request_of r = \<lparr>Count = mem_Count r, Visits = map Visit_of (fst (mem_Visits r))\<rparr>"

definition Visit_fields :: "string list" where
  "Visit_fields = [''store_id'', ''image_url'', ''visit_time'']"

definition SubmitJobRequest_fields :: "string list" where
  "SubmitJobRequest_fields = [''count'', ''visits'']"

fun decode_Visit_object ::
  "(string \<Rightarrow> string \<Rightarrow> bool) \<Rightarrow> Visit_mem \<Rightarrow> (string \<times> json) list \<Rightarrow> Visit_mem option" where
  "decode_Visit_object eqFold v [] = Some v"
| "decode_Visit_object eqFold v ((key, x) # kvs) =
     (case lookup_field eqFold Visit_fields key of
        None \<Rightarrow> None
      | Some f \<Rightarrow>
          if f = ''store_id'' then
            (case decode_string (mem_StoreID v) x of
               None \<Rightarrow> None
             | Some s \<Rightarrow> decode_Visit_object eqFold (v\<lparr>mem_StoreID := s\<rparr>) kvs)
          else if f = ''image_url'' then
            (case decode_slice decode_string [] (mem_ImageURLs v) x of
               None \<Rightarrow> None
             | Some us \<Rightarrow> decode_Visit_object eqFold (v\<lparr>mem_ImageURLs := us\<rparr>) kvs)
          else
            (case decode_string (mem_VisitTime v) x of
               None \<Rightarrow> None
             | Some s \<Rightarrow> decode_Visit_object eqFold (v\<lparr>mem_VisitTime := s\<rparr>) kvs))"

fun decode_Visit :: "(string \<Rightarrow> string \<Rightarrow> bool) \<Rightarrow> Visit_mem \<Rightarrow> json \<Rightarrow> Visit_mem option" where
  "decode_Visit eqFold v JNull = Some v"
| "decode_Visit eqFold v (JObj kvs) = decode_Visit_object eqFold v kvs"
| "decode_Visit eqFold v _ = None"

fun decode_request_object ::
  "(string \<Rightarrow> string \<Rightarrow> bool) \<Rightarrow> Request_mem \<Rightarrow> (string \<times> json) list \<Rightarrow> Request_mem option" where
  "decode_request_object eqFold req [] = Some req"
| "decode_request_object eqFold req ((key, x) # kvs) =
     (case lookup_field eqFold SubmitJobRequest_fields key of
        None \<Rightarrow> None
      | Some f \<Rightarrow>
          if f = ''count'' then
            (case decode_int (mem_Count req) x of
               None \<Rightarrow> None
             | Some n \<Rightarrow> decode_request_object eqFold (req\<lparr>mem_Count := n\<rparr>) kvs)
          else
            (case decode_slice (decode_Visit eqFold) zero_Visit (mem_Visits req) x of
               None \<Rightarrow> None
             | Some vs \<Rightarrow> decode_request_object eqFold (req\<lparr>mem_Visits := vs\<rparr>) kvs))"

fun decode :: "(string \<Rightarrow> string \<Rightarrow> bool) \<Rightarrow> json option \<Rightarrow> SubmitJobRequest option" where
  "decode eqFold None = None"
| "decode eqFold (Some JNull) = Some (Request_of zero_Request)"
| "decode eqFold (Some (JObj kvs)) =
     map_option Request_of (decode_request_object eqFold zero_Request kvs)"
| "decode eqFold (Some _) = None"

text \<open>A payload with a key that selects no field, in the request object or in a visit.\<close>

definition unknown_key :: "(string \<Rightarrow> string \<Rightarrow> bool) \<Rightarrow> string list \<Rightarrow> (string \<times> json) list \<Rightarrow> bool" where
  "unknown_key eqFold names kvs = list_ex (\<lambda>kv. lookup_field eqFold names (fst kv) = None) kvs"

fun visit_unknown_field :: "(string \<Rightarrow> string \<Rightarrow> bool) \<Rightarrow> json \<Rightarrow> bool" where
  "visit_unknown_field eqFold (JObj kvs) = unknown_key eqFold Visit_fields kvs"
| "visit_unknown_field eqFold _ = False"

fun visits_unknown_field :: "(string \<Rightarrow> string \<Rightarrow> bool) \<Rightarrow> json \<Rightarrow> bool" where
  "visits_unknown_field eqFold (JArr xs) = list_ex (visit_unknown_field eqFold) xs"
| "visits_unknown_field eqFold _ = False"

fun has_unknown_field :: "(string \<Rightarrow> string \<Rightarrow> bool) \<Rightarrow> json \<Rightarrow> bool" where
  "has_unknown_field eqFold (JObj kvs) =
     (unknown_key eqFold SubmitJobRequest_fields kvs \<or>
      list_ex (\<lambda>kv. lookup_field eqFold SubmitJobRequest_fields (fst kv) = Some ''visits'' \<and>
                    visits_unknown_field eqFold (snd kv)) kvs)"
| "has_unknown_field eqFold _ = False"

text \<open>
  A response is a status code with a JSON body, or \<open>Text code message\<close> for
  \<open>http.Error(w, message, code)\<close>. A handler that never calls \<open>WriteHeader\<close> answers 200.
  The registry is the job map with the counter; the map holds what each \<open>*JobData\<close>
  points to.
\<close>

datatype response = JSON nat json | Text nat string

record Registry =
  jobs :: "int \<rightharpoonup> JobData"
  nextJobID :: int

definition responseError :: "string \<Rightarrow> response" where
  "responseError message = JSON 400 (JObj [(''error'', JStr message)])"

text \<open>
  \<open>handleSubmitJob\<close> returns the registry, the response and the \<open>processJob\<close> call it
  starts with \<open>go\<close>, if any.
\<close>

definition handleSubmitJob ::
  "(string \<Rightarrow> string \<Rightarrow> bool) \<Rightarrow> Registry \<Rightarrow> nat \<Rightarrow> string \<Rightarrow> json option
     \<Rightarrow> Registry \<times> response \<times> (JobData \<times> SubmitJobRequest) option" where
  "handleSubmitJob eqFold reg now method body =
     (if method \<noteq> ''POST'' then (reg, responseError ''Invalid Method'', None)
      else
        (case decode eqFold body of
           None \<Rightarrow> (reg, responseError ''Invalid request payload'', None)
         | Some req \<Rightarrow>
             if Count req = 0 \<and> length (Visits req) > 0 then
               (reg, responseError ''Invalid request payload'', None)
             else if Count req \<noteq> int (length (Visits req)) then
               (reg, responseError ''Count does not match number of visits'', None)
             else
               (let jobID = nextJobID reg; j = newJob jobID now
                in (\<lparr>jobs = (jobs reg)(jobID \<mapsto> j), nextJobID = wrap64 (jobID + 1)\<rparr>,
                    JSON 201 (JObj [(''job_id'', JInt jobID)]),
                    Some (j, req)))))"

text \<open>\<open>strconv.Atoi\<close>: an optional sign, then decimal digits, within the range of \<open>int\<close>.\<close>

fun parse_digits :: "int \<Rightarrow> string \<Rightarrow> int option" where
  "parse_digits acc [] = Some acc"
| "parse_digits acc (c # cs) =
     (if (48 :: nat) \<le> of_char c \<and> of_char c \<le> (57 :: nat)
      then parse_digits (10 * acc + ((of_char c :: int) - 48)) cs else None)"

definition atoi :: "string \<Rightarrow> int option" where
  "atoi s =
     (let neg = (s \<noteq> [] \<and> hd s = CHR ''-'');
          ds = (if s \<noteq> [] \<and> (hd s = CHR ''+'' \<or> hd s = CHR ''-'') then tl s else s)
      in if ds = [] then None
         else (case parse_digits 0 ds of
                 None \<Rightarrow> None
               | Some n \<Rightarrow>
                   (let v = (if neg then - n else n)
                    in if - (2 ^ 63) \<le> v \<and> v < 2 ^ 63 then Some v else None)))"

record JobStatusResponse =
  Resp_Status :: string
  Resp_JobID :: string
  Resp_Errors :: "StoreError list"

definition encode_StoreError :: "StoreError \<Rightarrow> json" where
  "encode_StoreError e = JObj [(''store_id'', JStr (Err_StoreID e)), (''error'', JStr (Error e))]"

text \<open>The field \<open>error\<close> is tagged \<open>omitempty\<close>: an empty list is left out.\<close>

definition encode_JobStatusResponse :: "JobStatusResponse \<Rightarrow> json" where
  "encode_JobStatusResponse r =
     JObj ([(''status'', JStr (Resp_Status r)), (''job_id'', JStr (Resp_JobID r))] @
           (if Resp_Errors r = [] then []
            else [(''error'', JArr (map encode_StoreError (Resp_Errors r)))]))"

text \<open>
  \<open>handleJobStatus\<close> for the method and the value of the query parameter \<open>jobid\<close> (empty
  when the parameter is missing). The handler finds the job under \<open>jobsMutex\<close> and then
  reads its fields without taking the job's mutex: \<open>job.Status\<close> and \<open>job.ID\<close> for the
  response (lines 298, 299), \<open>job.Status\<close> again for the test (line 302) and \<open>job.Errors\<close>
  (line 303). \<open>processJob\<close> can write between these reads, so they are three looks at
  the job: \<open>jobs reg\<close> holds the job as the first read finds it, \<open>at302\<close> and \<open>at303\<close>
  are the same job as the test and the read of the errors find it.
\<close>

definition handleJobStatus :: "Registry \<Rightarrow> string \<Rightarrow> string \<Rightarrow> JobData \<Rightarrow> JobData \<Rightarrow> response" where
  "handleJobStatus reg method jobIDStr at302 at303 =
     (if method \<noteq> ''GET'' then Text 405 ''Method not allowed''
      else if jobIDStr = [] then Text 400 ''Missing job ID''
      else
        (case atoi jobIDStr of
           None \<Rightarrow> Text 400 ''Invalid job ID''
         | Some jobID \<Rightarrow>
             (case jobs reg jobID of
                None \<Rightarrow> JSON 400 (JObj [])
              | Some j \<Rightarrow>
                  JSON 200 (encode_JobStatusResponse
                    \<lparr>Resp_Status = Status j, Resp_JobID = itoa (ID j),
                     Resp_Errors = (if Status at302 = ''failed'' then Errors at303 else [])\<rparr>))))"

text \<open>
  What a reader without the job's mutex can see of a step: the job after each single
  field write of the step, in program order. A step that fails a job writes the status
  (lines 171, 192) before it appends the error (lines 172, 193).
\<close>

definition orch_writes :: "proc \<Rightarrow> JobData list" where
  "orch_writes p =
     (case pc p of
        Scanning (visit # vs) \<Rightarrow>
          (case getStore (Visit_StoreID visit) of
             None \<Rightarrow>
               [(job p)\<lparr>Status := ''failed''\<rparr>,
                (job p)\<lparr>Status := ''failed'',
                        Errors := Errors (job p) @
                          [\<lparr>Err_StoreID = Visit_StoreID visit,
                            Error = ''Store ID does not exist''\<rparr>]\<rparr>]
           | Some _ \<Rightarrow> [])
      | Aborting \<Rightarrow> [(job p)\<lparr>CompletedAt := Some (clock p)\<rparr>]
      | Waiting \<Rightarrow>
          (if pending p = [] then
             (if Status (job p) \<noteq> ''failed''
              then [(job p)\<lparr>Status := ''completed''\<rparr>,
                    (job p)\<lparr>Status := ''completed'', CompletedAt := Some (clock p)\<rparr>]
              else [(job p)\<lparr>CompletedAt := Some (clock p)\<rparr>])
           else [])
      | _ \<Rightarrow> [])"

definition unit_writes :: "world \<Rightarrow> proc \<Rightarrow> nat \<Rightarrow> JobData list" where
  "unit_writes w p g =
     (case find (\<lambda>t. fst t = g) (pending p) of
        None \<Rightarrow> []
      | Some (g', storeID, imageURL) \<Rightarrow>
          (case calculateImagePerimeter w g' storeID imageURL of
             Inl err \<Rightarrow>
               [(job p)\<lparr>Status := ''failed''\<rparr>,
                (job p)\<lparr>Status := ''failed'',
                        Errors := Errors (job p) @ [\<lparr>Err_StoreID = storeID, Error = err\<rparr>]\<rparr>]
           | Inr result \<Rightarrow> [(job p)\<lparr>Results := Results (job p) @ [result]\<rparr>]))"

definition step_writes :: "world \<Rightarrow> proc \<Rightarrow> action \<Rightarrow> JobData list" where
  "step_writes w p a = (case a of Orch \<Rightarrow> orch_writes p | Unit g \<Rightarrow> unit_writes w p g)"

section \<open>Bookkeeping for the proofs\<close>

text \<open>
  The goroutines a run of \<open>processJob\<close> has yet to launch from its control point, the
  unknown-store error it has yet to append, and what each goroutine will record. The
  orchestrator launches the images of the visits before the first unknown store.
\<close>

definition known :: "Visit \<Rightarrow> bool" where
  "known v \<longleftrightarrow> getStore (Visit_StoreID v) \<noteq> None"

definition units_of :: "Visit list \<Rightarrow> (string \<times> string) list" where
  "units_of vs = concat (map (\<lambda>v. map (Pair (Visit_StoreID v)) (ImageURLs v)) vs)"

fun tag :: "nat \<Rightarrow> (string \<times> string) list \<Rightarrow> goroutine list" where
  "tag k [] = []"
| "tag k (u # us) = (k, u) # tag (Suc k) us"

fun to_launch :: "orch_pc \<Rightarrow> (string \<times> string) list" where
  "to_launch (Scanning vs) = units_of (takeWhile known vs)"
| "to_launch (Launching storeID us vs) = map (Pair storeID) us @ units_of (takeWhile known vs)"
| "to_launch _ = []"

definition abort_of :: "Visit list \<Rightarrow> StoreError list" where
  "abort_of vs = (case dropWhile known vs of [] \<Rightarrow> []
       | v # _ \<Rightarrow> [\<lparr>Err_StoreID = Visit_StoreID v, Error = ''Store ID does not exist''\<rparr>])"

fun to_abort :: "orch_pc \<Rightarrow> StoreError list" where
  "to_abort (Scanning vs) = abort_of vs"
| "to_abort (Launching storeID us vs) = abort_of vs"
| "to_abort _ = []"

fun err_of :: "world \<Rightarrow> goroutine \<Rightarrow> StoreError list" where
  "err_of w (g, storeID, imageURL) =
     (case calculateImagePerimeter w g storeID imageURL of
        Inl err \<Rightarrow> [\<lparr>Err_StoreID = storeID, Error = err\<rparr>] | Inr _ \<Rightarrow> [])"

fun res_of :: "world \<Rightarrow> goroutine \<Rightarrow> ImageResult list" where
  "res_of w (g, storeID, imageURL) =
     (case calculateImagePerimeter w g storeID imageURL of
        Inl _ \<Rightarrow> [] | Inr result \<Rightarrow> [result])"

definition errs_of :: "world \<Rightarrow> goroutine list \<Rightarrow> StoreError list" where
  "errs_of w ts = concat (map (err_of w) ts)"

definition ress_of :: "world \<Rightarrow> goroutine list \<Rightarrow> ImageResult list" where
  "ress_of w ts = concat (map (res_of w) ts)"

text \<open>The goroutines launched so far, numbered in launch order.\<close>

definition dispatched :: "SubmitJobRequest \<Rightarrow> proc \<Rightarrow> goroutine list" where
  "dispatched req p = tag 0 (take (spawned p) (units_of (Visits req)))"

definition err_ledger :: "world \<Rightarrow> proc \<Rightarrow> StoreError multiset" where
  "err_ledger w p = mset (Errors (job p)) + mset (errs_of w (pending p)) +
     mset (errs_of w (tag (spawned p) (to_launch (pc p)))) + mset (to_abort (pc p))"

definition res_ledger :: "world \<Rightarrow> proc \<Rightarrow> ImageResult multiset" where
  "res_ledger w p = mset (Results (job p)) + mset (ress_of w (pending p)) +
     mset (ress_of w (tag (spawned p) (to_launch (pc p))))"

definition status_inv :: "proc \<Rightarrow> bool" where
  "status_inv p \<longleftrightarrow>
     (Status (job p) = ''failed'' \<longleftrightarrow> Errors (job p) \<noteq> []) \<and>
     (Status (job p) = ''ongoing'' \<or> Status (job p) = ''failed'' \<or> Status (job p) = ''completed'') \<and>
     (Status (job p) = ''completed'' \<longrightarrow> pc p = Returned \<and> pending p = []) \<and>
     (pc p = Returned \<or> pc p = Aborting \<longrightarrow> Status (job p) \<noteq> ''ongoing'') \<and>
     (CompletedAt (job p) \<noteq> None \<longleftrightarrow> pc p = Returned)"

text \<open>An upper bound on the steps a process can still take.\<close>

fun visits_cost :: "Visit list \<Rightarrow> nat" where
  "visits_cost [] = 2"
| "visits_cost (v # vs) = 2 + 2 * length (ImageURLs v) + visits_cost vs"

fun orch_cost :: "orch_pc \<Rightarrow> nat" where
  "orch_cost (Scanning vs) = visits_cost vs"
| "orch_cost (Launching storeID us vs) = 1 + 2 * length us + visits_cost vs"
| "orch_cost Aborting = 1"
| "orch_cost Waiting = 1"
| "orch_cost Returned = 0"

definition steps_left :: "proc \<Rightarrow> nat" where
  "steps_left p = orch_cost (pc p) + length (pending p)"

text \<open>
  A fetch succeeds when the response has status 200 and decodes to an image. The
  decoders of the registered formats (PNG, JPEG, GIF) deliver coordinates below \<open>2^31\<close>.
\<close>

fun fetch_succeeds :: "http_outcome \<Rightarrow> bool" where
  "fetch_succeeds (Response code (Inr (minX, minY, maxX, maxY))) \<longleftrightarrow>
     code = 200 \<and> \<bar>minX\<bar> < 2 ^ 31 \<and> \<bar>minY\<bar> < 2 ^ 31 \<and> \<bar>maxX\<bar> < 2 ^ 31 \<and> \<bar>maxY\<bar> < 2 ^ 31"
| "fetch_succeeds _ \<longleftrightarrow> False"

definition launch_inv :: "(string \<times> string) list \<Rightarrow> proc \<Rightarrow> bool" where
  "launch_inv A p \<longleftrightarrow>
     spawned p \<le> length A \<and> drop (spawned p) A = to_launch (pc p) \<and>
     set (pending p) \<subseteq> set (tag 0 (take (spawned p) A))"

definition known_inv :: "proc \<Rightarrow> bool" where
  "known_inv p \<longleftrightarrow>
     (\<forall>t \<in> set (pending p). getStore (fst (snd t)) \<noteq> None) \<and>
     (case pc p of Launching storeID us vs \<Rightarrow> getStore storeID \<noteq> None | _ \<Rightarrow> True) \<and>
     (\<forall>e \<in> set (Errors (job p)). Error e \<noteq> ''store ID '' @ Err_StoreID e @ '' does not exist'')"

definition fetch_fails :: "world \<Rightarrow> goroutine \<Rightarrow> bool" where
  "fetch_fails w t \<longleftrightarrow> isl (downloadAndGetDimensions w (fst t) (snd (snd t)))"

definition fetch_error :: "world \<Rightarrow> goroutine \<Rightarrow> StoreError" where
  "fetch_error w t =
     \<lparr>Err_StoreID = fst (snd t), Error = projl (downloadAndGetDimensions w (fst t) (snd (snd t)))\<rparr>"

definition result_key :: "ImageResult \<Rightarrow> string \<times> string" where
  "result_key r = (Res_StoreID r, ImageURL r)"

text \<open>No goroutine is in flight and none will be launched.\<close>

definition settled :: "proc \<Rightarrow> bool" where
  "settled p \<longleftrightarrow> pending p = [] \<and> (pc p = Aborting \<or> pc p = Waiting \<or> pc p = Returned)"

definition join_inv :: "proc \<Rightarrow> bool" where
  "join_inv p \<longleftrightarrow> to_abort (pc p) = [] \<and> pc p \<noteq> Aborting \<and> (pc p = Returned \<longrightarrow> pending p = [])"

section \<open>Sample inputs\<close>

definition visit_two_images :: Visit where
  "visit_two_images = \<lparr>Visit_StoreID = ''S00339218'', ImageURLs = [''a'', ''b''], VisitTime = ''t''\<rparr>"

definition visit_unknown :: Visit where
  "visit_unknown = \<lparr>Visit_StoreID = ''UNKNOWN'', ImageURLs = [''c''], VisitTime = ''t''\<rparr>"

definition request_two_images :: SubmitJobRequest where
  "request_two_images = \<lparr>Count = 1, Visits = [visit_two_images]\<rparr>"

definition request_then_unknown :: SubmitJobRequest where
  "request_then_unknown = \<lparr>Count = 3, Visits = [visit_two_images, visit_unknown, visit_two_images]\<rparr>"

text \<open>Every fetch yields a 100 by 50 image; or the first goroutine's fetch times out.\<close>

definition world_ok :: world where
  "world_ok g url = Response 200 (Inr (0, 0, 100, 50))"

definition world_first_fails :: world where
  "world_first_fails g url =
     (if g = 0 then DoError ''timeout'' else Response 200 (Inr (0, 0, 100, 50)))"

definition schedule_two_images :: "action list" where
  "schedule_two_images = [Orch, Orch, Orch, Unit 0, Unit 1, Orch, Orch, Orch]"

text \<open>The first goroutine's fetch has failed, the second is still in flight.\<close>

definition state_first_failed :: proc where
  "state_first_failed =
     \<lparr>job = \<lparr>ID = 1, Status = ''failed'', Results = [],
              Errors = [\<lparr>Err_StoreID = ''S00339218'',
                         Error = ''error downloading image: timeout''\<rparr>],
              CreatedAt = Some 0, CompletedAt = None\<rparr>,
      pc = Launching ''S00339218'' [] [], pending = [(1, ''S00339218'', ''b'')],
      spawned = 2, clock = 4\<rparr>"

text \<open>The same run at its end.\<close>

definition state_first_failed_done :: proc where
  "state_first_failed_done =
     \<lparr>job = \<lparr>ID = 1, Status = ''failed'',
              Results = [\<lparr>Res_StoreID = ''S00339218'', Res_StoreName = ''Store A'',
                          Res_AreaCode = ''NYC'', ImageURL = ''b'', Width = 100,
                          Height = 50, Perimeter = 300\<rparr>],
              Errors = [\<lparr>Err_StoreID = ''S00339218'',
                         Error = ''error downloading image: timeout''\<rparr>],
              CreatedAt = Some 0, CompletedAt = Some 7\<rparr>,
      pc = Returned, pending = [], spawned = 2, clock = 8\<rparr>"

text \<open>Both fetches have succeeded and \<open>processJob\<close> has returned.\<close>

definition state_two_images_done :: proc where
  "state_two_images_done =
     \<lparr>job = \<lparr>ID = 1, Status = ''completed'',
              Results = [\<lparr>Res_StoreID = ''S00339218'', Res_StoreName = ''Store A'',
                          Res_AreaCode = ''NYC'', ImageURL = ''a'', Width = 100,
                          Height = 50, Perimeter = 300\<rparr>,
                         \<lparr>Res_StoreID = ''S00339218'', Res_StoreName = ''Store A'',
                          Res_AreaCode = ''NYC'', ImageURL = ''b'', Width = 100,
                          Height = 50, Perimeter = 300\<rparr>],
              Errors = [], CreatedAt = Some 0, CompletedAt = Some 7\<rparr>,
      pc = Returned, pending = [], spawned = 2, clock = 8\<rparr>"

definition schedule_then_unknown :: "action list" where
  "schedule_then_unknown = [Orch, Orch, Orch, Orch, Orch, Orch, Unit 1, Unit 0]"

text \<open>
  The run of \<open>request_then_unknown\<close> at its end: \<open>processJob\<close> returned at the unknown
  store, then the two goroutines of the first visit recorded their results.
\<close>

definition state_then_unknown_done :: proc where
  "state_then_unknown_done =
     \<lparr>job = \<lparr>ID = 1, Status = ''failed'',
              Results = [\<lparr>Res_StoreID = ''S00339218'', Res_StoreName = ''Store A'',
                          Res_AreaCode = ''NYC'', ImageURL = ''b'', Width = 100,
                          Height = 50, Perimeter = 300\<rparr>,
                         \<lparr>Res_StoreID = ''S00339218'', Res_StoreName = ''Store A'',
                          Res_AreaCode = ''NYC'', ImageURL = ''a'', Width = 100,
                          Height = 50, Perimeter = 300\<rparr>],
              Errors = [\<lparr>Err_StoreID = ''UNKNOWN'', Error = ''Store ID does not exist''\<rparr>],
              CreatedAt = Some 0, CompletedAt = Some 5\<rparr>,
      pc = Returned, pending = [], spawned = 2, clock = 8\<rparr>"

definition registry_empty :: Registry where
  "registry_empty = \<lparr>jobs = Map.empty, nextJobID = 1\<rparr>"

definition body_extra_field :: json where
  "body_extra_field = JObj [(''count'', JInt 0), (''visits'', JArr []), (''priority'', JInt 1)]"

definition body_empty_batch :: json where
  "body_empty_batch = JObj [(''count'', JInt 0), (''visits'', JArr [])]"

text \<open>
  Both goroutines are in flight and the job is still \<open>ongoing\<close>; the first goroutine has
  then written the status \<open>failed\<close> (line 192) and not yet appended its error (line 193).
\<close>

definition state_both_in_flight :: proc where
  "state_both_in_flight =
     \<lparr>job = \<lparr>ID = 1, Status = ''ongoing'', Results = [], Errors = [],
              CreatedAt = Some 0, CompletedAt = None\<rparr>,
      pc = Launching ''S00339218'' [] [],
      pending = [(0, ''S00339218'', ''a''), (1, ''S00339218'', ''b'')],
      spawned = 2, clock = 3\<rparr>"

definition job_failed_unrecorded :: JobData where
  "job_failed_unrecorded =
     \<lparr>ID = 1, Status = ''failed'', Results = [], Errors = [],
      CreatedAt = Some 0, CompletedAt = None\<rparr>"

section \<open>Steps and invariants\<close>

lemma find_fst_Some: "find (\<lambda>t. fst t = g) ts = Some t \<Longrightarrow> t \<in> set ts \<and> fst t = g"
  by (induction ts) (auto split: if_splits)

lemma orch_stepE:
  assumes "orch_step p = Some p'"
  obtains
    (scanned) "pc p = Scanning []" "p' = p\<lparr>pc := Waiting\<rparr>"
  | (unknown) visit vs where "pc p = Scanning (visit # vs)" "getStore (Visit_StoreID visit) = None"
      "p' = p\<lparr>job := (job p)\<lparr>Status := ''failed'',
              Errors := Errors (job p) @
                [\<lparr>Err_StoreID = Visit_StoreID visit, Error = ''Store ID does not exist''\<rparr>]\<rparr>,
            pc := Aborting\<rparr>"
  | (visit) visit vs where "pc p = Scanning (visit # vs)" "getStore (Visit_StoreID visit) \<noteq> None"
      "p' = p\<lparr>pc := Launching (Visit_StoreID visit) (ImageURLs visit) vs\<rparr>"
  | (launched) storeID vs where "pc p = Launching storeID [] vs" "p' = p\<lparr>pc := Scanning vs\<rparr>"
  | (launch) storeID imageURL us vs where "pc p = Launching storeID (imageURL # us) vs"
      "p' = p\<lparr>pending := pending p @ [(spawned p, storeID, imageURL)],
            spawned := Suc (spawned p), pc := Launching storeID us vs\<rparr>"
  | (abort) "pc p = Aborting"
      "p' = p\<lparr>job := (job p)\<lparr>CompletedAt := Some (clock p)\<rparr>, pc := Returned\<rparr>"
  | (join) "pc p = Waiting" "pending p = []"
      "p' = p\<lparr>job := (job p)\<lparr>Status := (if Status (job p) \<noteq> ''failed'' then ''completed''
                                           else Status (job p)),
                            CompletedAt := Some (clock p)\<rparr>, pc := Returned\<rparr>"
  using assms
  by (auto simp: orch_step_def split: orch_pc.splits list.splits option.splits if_splits)

lemma unit_stepE:
  assumes "unit_step w p g = Some p'"
  obtains
    (failed) storeID imageURL err where "(g, storeID, imageURL) \<in> set (pending p)"
      "calculateImagePerimeter w g storeID imageURL = Inl err"
      "p' = p\<lparr>job := (job p)\<lparr>Status := ''failed'',
              Errors := Errors (job p) @ [\<lparr>Err_StoreID = storeID, Error = err\<rparr>]\<rparr>,
            pending := remove1 (g, storeID, imageURL) (pending p)\<rparr>"
  | (succeeded) storeID imageURL result where "(g, storeID, imageURL) \<in> set (pending p)"
      "calculateImagePerimeter w g storeID imageURL = Inr result"
      "p' = p\<lparr>job := (job p)\<lparr>Results := Results (job p) @ [result]\<rparr>,
            pending := remove1 (g, storeID, imageURL) (pending p)\<rparr>"
  using assms
  by (auto simp: unit_step_def split: option.splits sum.splits prod.splits dest!: find_fst_Some)

lemma status_inv_orch: "status_inv p \<Longrightarrow> orch_step p = Some p' \<Longrightarrow> status_inv p'"
  by (erule orch_stepE) (auto simp: status_inv_def)

lemma status_inv_unit: "status_inv p \<Longrightarrow> unit_step w p g = Some p' \<Longrightarrow> status_inv p'"
  by (erule unit_stepE) (auto simp: status_inv_def)

lemma status_inv_clock [simp]: "status_inv (q\<lparr>clock := c\<rparr>) = status_inv q"
  by (simp add: status_inv_def)

lemma step_SomeE:
  assumes "step w p a = Some p'"
  obtains q where "p' = q\<lparr>clock := Suc (clock q)\<rparr>" and "a = Orch \<and> orch_step p = Some q \<or> (\<exists>g. a = Unit g \<and> unit_step w p g = Some q)"
  using assms by (cases a) (auto simp: step_def)

lemma status_inv_step: "status_inv p \<Longrightarrow> step w p a = Some p' \<Longrightarrow> status_inv p'"
  by (erule step_SomeE) (auto dest: status_inv_orch status_inv_unit)

lemma status_inv_run: "status_inv p \<Longrightarrow> run w p sched = Some p' \<Longrightarrow> status_inv p'"
  by (induction sched arbitrary: p) (auto split: option.splits dest: status_inv_step)

lemma status_inv_init: "status_inv (processJob (newJob i t) req t')"
  by (simp add: status_inv_def processJob_def newJob_def)

lemma errs_of_simps [simp]:
  "errs_of w [] = []" "errs_of w (t # ts) = err_of w t @ errs_of w ts"
  "errs_of w (ts @ ts') = errs_of w ts @ errs_of w ts'"
  by (simp_all add: errs_of_def)

lemma ress_of_simps [simp]:
  "ress_of w [] = []" "ress_of w (t # ts) = res_of w t @ ress_of w ts"
  "ress_of w (ts @ ts') = ress_of w ts @ ress_of w ts'"
  by (simp_all add: ress_of_def)

lemma units_of_simps [simp]:
  "units_of [] = []"
  "units_of (v # vs) = map (Pair (Visit_StoreID v)) (ImageURLs v) @ units_of vs"
  by (simp_all add: units_of_def)

lemma mset_errs_of_remove1:
  "t \<in> set ts \<Longrightarrow> mset (errs_of w (remove1 t ts)) + mset (err_of w t) = mset (errs_of w ts)"
  by (induction ts) auto

lemma mset_ress_of_remove1:
  "t \<in> set ts \<Longrightarrow> mset (ress_of w (remove1 t ts)) + mset (res_of w t) = mset (ress_of w ts)"
  by (induction ts) auto

lemma ledger_clock [simp]:
  "err_ledger w (q\<lparr>clock := c\<rparr>) = err_ledger w q"
  "res_ledger w (q\<lparr>clock := c\<rparr>) = res_ledger w q"
  by (simp_all add: err_ledger_def res_ledger_def)

lemma abort_of_simps [simp]:
  "abort_of [] = []"
  "abort_of (v # vs) = (if known v then abort_of vs
     else [\<lparr>Err_StoreID = Visit_StoreID v, Error = ''Store ID does not exist''\<rparr>])"
  by (simp_all add: abort_of_def)

lemma err_ledger_orch: "orch_step p = Some p' \<Longrightarrow> err_ledger w p' = err_ledger w p"
  by (erule orch_stepE) (auto simp: err_ledger_def known_def)

lemma res_ledger_orch: "orch_step p = Some p' \<Longrightarrow> res_ledger w p' = res_ledger w p"
  by (erule orch_stepE) (auto simp: res_ledger_def known_def)

lemma err_ledger_unit: "unit_step w p g = Some p' \<Longrightarrow> err_ledger w p' = err_ledger w p"
  by (erule unit_stepE) (auto simp: err_ledger_def mset_errs_of_remove1 [symmetric])

lemma res_ledger_unit: "unit_step w p g = Some p' \<Longrightarrow> res_ledger w p' = res_ledger w p"
  by (erule unit_stepE) (auto simp: res_ledger_def mset_ress_of_remove1 [symmetric])

lemma ledger_step:
  "step w p a = Some p' \<Longrightarrow> err_ledger w p' = err_ledger w p \<and> res_ledger w p' = res_ledger w p"
  by (erule step_SomeE) (auto simp: err_ledger_orch res_ledger_orch err_ledger_unit res_ledger_unit)

lemma ledger_run:
  "run w p sched = Some p' \<Longrightarrow> err_ledger w p' = err_ledger w p \<and> res_ledger w p' = res_ledger w p"
  by (induction sched arbitrary: p) (auto split: option.splits dest: ledger_step)

lemma visits_cost_pos: "0 < visits_cost vs"
  by (cases vs) auto

lemma steps_left_orch: "orch_step p = Some p' \<Longrightarrow> steps_left p' < steps_left p"
  by (erule orch_stepE) (use visits_cost_pos in \<open>auto simp: steps_left_def\<close>)

lemma length_remove1_less: "t \<in> set ts \<Longrightarrow> length (remove1 t ts) < length ts"
  by (induction ts) auto

lemma steps_left_unit: "unit_step w p g = Some p' \<Longrightarrow> steps_left p' < steps_left p"
  by (erule unit_stepE) (auto simp: steps_left_def length_remove1_less)

lemma steps_left_clock [simp]: "steps_left (q\<lparr>clock := c\<rparr>) = steps_left q"
  by (simp add: steps_left_def)

lemma steps_left_step: "step w p a = Some p' \<Longrightarrow> steps_left p' < steps_left p"
  by (erule step_SomeE) (auto dest: steps_left_orch steps_left_unit)

lemma steps_left_run: "run w p sched = Some p' \<Longrightarrow> length sched + steps_left p' \<le> steps_left p"
proof (induction sched arbitrary: p)
  case Nil
  then show ?case by simp
next
  case (Cons a sched)
  then obtain q where q: "step w p a = Some q" "run w q sched = Some p'"
    by (auto split: option.splits)
  from Cons.IH [OF q(2)] steps_left_step [OF q(1)] show ?case by simp
qed

lemma find_hd: "ts \<noteq> [] \<Longrightarrow> find (\<lambda>t. fst t = fst (hd ts)) ts \<noteq> None"
  by (cases ts) auto

lemma progress: "\<not> final p \<Longrightarrow> \<exists>a p'. step w p a = Some p'"
proof (cases "pending p = []")
  case True
  assume "\<not> final p"
  with True have "pc p \<noteq> Returned" by (simp add: final_def)
  with True have "orch_step p \<noteq> None"
    by (auto simp: orch_step_def split: orch_pc.splits list.splits option.splits)
  then show ?thesis by (intro exI [of _ Orch]) (auto simp: step_def)
next
  case False
  from find_hd [OF False] have "unit_step w p (fst (hd (pending p))) \<noteq> None"
    by (auto simp: unit_step_def split: option.splits sum.splits prod.splits)
  then show ?thesis by (intro exI [of _ "Unit (fst (hd (pending p)))"]) (auto simp: step_def)
qed

lemma final_no_step: "final p \<Longrightarrow> step w p a = None"
  by (cases a) (auto simp: final_def step_def orch_step_def unit_step_def)

lemma reach_status_inv:
  "run w (processJob (newJob jobID t) req t') sched = Some p \<Longrightarrow> status_inv p"
  using status_inv_init status_inv_run by blast

lemma step_failed_appends:
  assumes "step w p a = Some p'" "Status (job p') = ''failed''" "Status (job p) \<noteq> ''failed''"
  shows "\<exists>e. Errors (job p') = Errors (job p) @ [e]"
  using assms(1)
proof (cases rule: step_SomeE)
  case (1 q)
  from 1(2) show ?thesis
  proof (elim disjE conjE exE)
    assume "orch_step p = Some q"
    then show ?thesis using assms(2,3) 1(1) by (cases rule: orch_stepE) (auto split: if_splits)
  next
    fix g assume "unit_step w p g = Some q"
    then show ?thesis using assms(2,3) 1(1) by (cases rule: unit_stepE) auto
  qed
qed

section \<open>Status and errors agree\<close>

text \<open>
  C8. In every state a job reaches, status \<open>completed\<close> goes with an empty error list and
  status \<open>failed\<close> with a non-empty one. A step that turns the status to \<open>failed\<close>
  appends an error in that same step, and a step that turns it to \<open>completed\<close> starts
  from status \<open>ongoing\<close> with no error recorded.
\<close>

theorem status_matches_errors:
  assumes "run w (processJob (newJob jobID t) req t') sched = Some p"
  shows "(Status (job p) = ''completed'' \<longrightarrow> Errors (job p) = []) \<and>
         (Status (job p) = ''failed'' \<longrightarrow> Errors (job p) \<noteq> []) \<and>
         (\<forall>a p'. step w p a = Some p' \<longrightarrow>
            (Status (job p') = ''failed'' \<and> Status (job p) \<noteq> ''failed'' \<longrightarrow>
               (\<exists>e. Errors (job p') = Errors (job p) @ [e])) \<and>
            (Status (job p') = ''completed'' \<longrightarrow>
               Status (job p) = ''ongoing'' \<and> Errors (job p) = [] \<and> Errors (job p') = []))"
proof -
  have inv: "status_inv p" using assms by (rule reach_status_inv)
  have a: "Status (job p) = ''completed'' \<longrightarrow> Errors (job p) = []"
    using inv by (auto simp: status_inv_def)
  have b: "Status (job p) = ''failed'' \<longrightarrow> Errors (job p) \<noteq> []"
    using inv by (simp add: status_inv_def)
  have c: "Status (job p) = ''ongoing'' \<and> Errors (job p) = [] \<and> Errors (job p') = []"
    if st: "step w p a = Some p'" and co: "Status (job p') = ''completed''" for a p'
  proof -
    have inv': "status_inv p'" using inv st by (rule status_inv_step)
    have "\<not> final p" using st final_no_step [of p w a] by auto
    then have "Status (job p) \<noteq> ''completed''" using inv by (auto simp: status_inv_def final_def)
    moreover have "Status (job p) \<noteq> ''failed''"
      using st co by (elim step_SomeE disjE conjE exE orch_stepE unit_stepE) (auto split: if_splits)
    ultimately have "Status (job p) = ''ongoing'' \<and> Errors (job p) = []"
      using inv by (auto simp: status_inv_def)
    moreover have "Errors (job p') = []" using inv' co by (auto simp: status_inv_def)
    ultimately show ?thesis by simp
  qed
  show ?thesis using a b c step_failed_appends by blast
qed

theorem status_matches_errors_witness:
  "run world_first_fails (processJob (newJob 1 0) request_two_images 0) schedule_two_images =
     Some state_first_failed_done \<and>
   Status (job state_first_failed_done) = ''failed'' \<and>
   Errors (job state_first_failed_done) \<noteq> []"
proof -
  have r: "run world_first_fails (processJob (newJob 1 0) request_two_images 0)
             schedule_two_images = Some state_first_failed_done"
    by code_simp
  have s: "Status (job state_first_failed_done) = ''failed''"
    by (simp add: state_first_failed_done_def)
  from status_matches_errors [OF r] s r show ?thesis by blast
qed

lemma tag_append: "tag k (xs @ ys) = tag k xs @ tag (k + length xs) ys"
  by (induction xs arbitrary: k) auto

lemma download_error_hd:
  "downloadAndGetDimensions w g url = Inl err \<Longrightarrow> hd err = CHR ''e''"
  by (auto simp: downloadAndGetDimensions_def split: http_outcome.splits if_splits sum.splits prod.splits)

lemma calculate_error_known:
  "getStore storeID \<noteq> None \<Longrightarrow> calculateImagePerimeter w g storeID imageURL = Inl err
     \<Longrightarrow> hd err = CHR ''e''"
  by (auto simp: calculateImagePerimeter_def split: option.splits sum.splits prod.splits
      dest: download_error_hd)

lemma calculate_error_hd:
  "calculateImagePerimeter w g storeID imageURL = Inl err \<Longrightarrow> hd err = CHR ''e'' \<or> hd err = CHR ''s''"
  by (auto simp: calculateImagePerimeter_def split: option.splits sum.splits prod.splits
      dest: download_error_hd)

lemma known_inv_clock [simp]: "known_inv (q\<lparr>clock := c\<rparr>) = known_inv q"
  by (simp add: known_inv_def)

lemma known_inv_orch: "known_inv p \<Longrightarrow> orch_step p = Some p' \<Longrightarrow> known_inv p'"
  by (erule orch_stepE) (auto simp: known_inv_def)

lemma known_inv_unit: "known_inv p \<Longrightarrow> unit_step w p g = Some p' \<Longrightarrow> known_inv p'"
proof (erule unit_stepE)
  fix storeID imageURL err
  assume k: "known_inv p" and m: "(g, storeID, imageURL) \<in> set (pending p)"
    and c: "calculateImagePerimeter w g storeID imageURL = Inl err"
    and p': "p' = p\<lparr>job := (job p)\<lparr>Status := ''failed'',
              Errors := Errors (job p) @ [\<lparr>Err_StoreID = storeID, Error = err\<rparr>]\<rparr>,
            pending := remove1 (g, storeID, imageURL) (pending p)\<rparr>"
  from k m have "getStore storeID \<noteq> None" by (auto simp: known_inv_def)
  from calculate_error_known [OF this c] have "err \<noteq> ''store ID '' @ storeID @ '' does not exist''"
    by auto
  with k p' show "known_inv p'"
    by (auto simp: known_inv_def dest: notin_set_remove1 split: orch_pc.splits)
next
  fix storeID imageURL result
  assume k: "known_inv p"
    and p': "p' = p\<lparr>job := (job p)\<lparr>Results := Results (job p) @ [result]\<rparr>,
            pending := remove1 (g, storeID, imageURL) (pending p)\<rparr>"
  then show "known_inv p'"
    by (auto simp: known_inv_def dest: notin_set_remove1 split: orch_pc.splits)
qed

lemma known_inv_step: "known_inv p \<Longrightarrow> step w p a = Some p' \<Longrightarrow> known_inv p'"
  by (erule step_SomeE) (auto dest: known_inv_orch known_inv_unit)

lemma known_inv_run: "known_inv p \<Longrightarrow> run w p sched = Some p' \<Longrightarrow> known_inv p'"
  by (induction sched arbitrary: p) (auto split: option.splits dest: known_inv_step)

lemma known_inv_init: "known_inv (processJob (newJob i t) req t')"
  by (simp add: known_inv_def processJob_def newJob_def)

section \<open>The store lookup of an image goroutine\<close>

text \<open>
  C9. \<open>processJob\<close> launches an image goroutine only after \<open>getStore\<close> has found the
  visit's store, and the store master never changes. So for every goroutine in flight the
  lookup inside \<open>calculateImagePerimeter\<close> succeeds again: the goroutine does not return
  the error \<open>store ID ... does not exist\<close>, and no job ever records that error.
\<close>

theorem second_store_lookup_succeeds:
  assumes "run w (processJob (newJob jobID t) req t') sched = Some p"
  shows "(\<forall>t \<in> set (pending p).
            getStore (fst (snd t)) \<noteq> None \<and>
            calculateImagePerimeter w (fst t) (fst (snd t)) (snd (snd t)) \<noteq>
              Inl (''store ID '' @ fst (snd t) @ '' does not exist'')) \<and>
         (\<forall>e \<in> set (Errors (job p)).
            Error e \<noteq> ''store ID '' @ Err_StoreID e @ '' does not exist'')"
proof -
  have k: "known_inv p" using known_inv_init assms by (rule known_inv_run)
  have "calculateImagePerimeter w (fst t) (fst (snd t)) (snd (snd t)) \<noteq>
          Inl (''store ID '' @ fst (snd t) @ '' does not exist'')"
    if "t \<in> set (pending p)" for t
  proof
    assume c: "calculateImagePerimeter w (fst t) (fst (snd t)) (snd (snd t)) =
          Inl (''store ID '' @ fst (snd t) @ '' does not exist'')"
    from k that have "getStore (fst (snd t)) \<noteq> None" by (simp add: known_inv_def)
    from calculate_error_known [OF this c] show False by simp
  qed
  with k show ?thesis by (simp add: known_inv_def)
qed

theorem second_store_lookup_succeeds_witness:
  "run world_first_fails (processJob (newJob 1 0) request_two_images 0) [Orch, Orch, Orch, Unit 0] =
     Some state_first_failed \<and>
   (1, ''S00339218'', ''b'') \<in> set (pending state_first_failed) \<and>
   getStore ''S00339218'' \<noteq> None \<and>
   calculateImagePerimeter world_first_fails 1 ''S00339218'' ''b'' \<noteq>
     Inl ''store ID S00339218 does not exist''"
proof -
  have r: "run world_first_fails (processJob (newJob 1 0) request_two_images 0)
             [Orch, Orch, Orch, Unit 0] = Some state_first_failed"
    by code_simp
  have m: "(1, ''S00339218'', ''b'') \<in> set (pending state_first_failed)"
    by (simp add: state_first_failed_def)
  from second_store_lookup_succeeds [OF r] m
  have "getStore (fst (snd (1 :: nat, ''S00339218'', ''b''))) \<noteq> None \<and>
        calculateImagePerimeter world_first_fails (fst (1 :: nat, ''S00339218'', ''b''))
          (fst (snd (1 :: nat, ''S00339218'', ''b''))) (snd (snd (1 :: nat, ''S00339218'', ''b''))) \<noteq>
          Inl (''store ID '' @ fst (snd (1 :: nat, ''S00339218'', ''b'')) @ '' does not exist'')"
    by blast
  with r m show ?thesis by simp
qed

lemma launch_inv_clock [simp]: "launch_inv A (q\<lparr>clock := c\<rparr>) = launch_inv A q"
  by (simp add: launch_inv_def)

lemma tag_take_Suc:
  "k < length A \<Longrightarrow> tag 0 (take (Suc k) A) = tag 0 (take k A) @ [(k, A ! k)]"
  by (simp add: take_Suc_conv_app_nth tag_append)

lemma drop_eq_ConsD: "drop k A = x # xs \<Longrightarrow> k < length A \<and> A ! k = x \<and> drop (Suc k) A = xs"
  by (metis Cons_nth_drop_Suc drop_all list.distinct(1) list.inject not_le)

lemma launch_inv_orch: "launch_inv A p \<Longrightarrow> orch_step p = Some p' \<Longrightarrow> launch_inv A p'"
proof (erule orch_stepE)
  fix storeID imageURL us vs
  assume l: "launch_inv A p" and pc: "pc p = Launching storeID (imageURL # us) vs"
    and p': "p' = p\<lparr>pending := pending p @ [(spawned p, storeID, imageURL)],
            spawned := Suc (spawned p), pc := Launching storeID us vs\<rparr>"
  from l pc have "drop (spawned p) A = (storeID, imageURL) # (map (Pair storeID) us @ units_of (takeWhile known vs))"
    by (simp add: launch_inv_def)
  from drop_eq_ConsD [OF this] l p' show "launch_inv A p'"
    by (auto simp: launch_inv_def tag_take_Suc)
qed (auto simp: launch_inv_def known_def)

lemma launch_inv_unit: "launch_inv A p \<Longrightarrow> unit_step w p g = Some p' \<Longrightarrow> launch_inv A p'"
  by (erule unit_stepE) (auto simp: launch_inv_def dest: notin_set_remove1)

lemma launch_inv_step: "launch_inv A p \<Longrightarrow> step w p a = Some p' \<Longrightarrow> launch_inv A p'"
  by (erule step_SomeE) (auto dest: launch_inv_orch launch_inv_unit)

lemma launch_inv_run: "launch_inv A p \<Longrightarrow> run w p sched = Some p' \<Longrightarrow> launch_inv A p'"
  by (induction sched arbitrary: p) (auto split: option.splits dest: launch_inv_step)

lemma launch_inv_init:
  "launch_inv (units_of (takeWhile known (Visits req))) (processJob j req t)"
  by (simp add: launch_inv_def processJob_def)

lemma wrap64_id: "- (2 ^ 63) \<le> n \<Longrightarrow> n < 2 ^ 63 \<Longrightarrow> wrap64 n = n"
  by (simp add: wrap64_def)

lemma getStore_StoreID: "getStore storeID = Some store \<Longrightarrow> StoreID store = storeID"
  by (auto simp: getStore_def storeMaster_def split: if_splits)

lemma calculate_Inr_key:
  "calculateImagePerimeter w g storeID imageURL = Inr r \<Longrightarrow> result_key r = (storeID, imageURL)"
  by (auto simp: calculateImagePerimeter_def result_key_def getStore_StoreID
      split: option.splits sum.splits prod.splits)

lemma calculate_known:
  "getStore storeID \<noteq> None \<Longrightarrow>
     isl (calculateImagePerimeter w g storeID imageURL) = isl (downloadAndGetDimensions w g imageURL) \<and>
     (isl (downloadAndGetDimensions w g imageURL) \<longrightarrow>
        calculateImagePerimeter w g storeID imageURL = Inl (projl (downloadAndGetDimensions w g imageURL)))"
  by (auto simp: calculateImagePerimeter_def split: option.splits sum.splits prod.splits)

lemma calculate_success:
  assumes "getStore storeID \<noteq> None" "fetch_succeeds (w g imageURL)"
  shows "\<exists>r minX minY maxX maxY.
           calculateImagePerimeter w g storeID imageURL = Inr r \<and>
           w g imageURL = Response 200 (Inr (minX, minY, maxX, maxY)) \<and>
           Width r = maxX - minX \<and> Height r = maxY - minY \<and>
           Perimeter r = 2 * real_of_int (Width r + Height r)"
proof -
  from assms(2) obtain minX minY maxX maxY where
    w: "w g imageURL = Response 200 (Inr (minX, minY, maxX, maxY))"
    and b: "\<bar>minX\<bar> < 2 ^ 31" "\<bar>minY\<bar> < 2 ^ 31" "\<bar>maxX\<bar> < 2 ^ 31" "\<bar>maxY\<bar> < 2 ^ 31"
    by (cases "w g imageURL" rule: fetch_succeeds.cases) auto
  have x: "wrap64 (maxX - minX) = maxX - minX" using b by (intro wrap64_id) auto
  have y: "wrap64 (maxY - minY) = maxY - minY" using b by (intro wrap64_id) auto
  have s: "wrap64 (maxX - minX + (maxY - minY)) = maxX - minX + (maxY - minY)"
    using b by (intro wrap64_id) auto
  have f: "float64 (maxX - minX + (maxY - minY)) = maxX - minX + (maxY - minY)"
    using b by (auto simp: float64_def)
  from assms(1) obtain store where "getStore storeID = Some store" by auto
  with w x y s f show ?thesis
    by (simp add: calculateImagePerimeter_def downloadAndGetDimensions_def)
qed

lemma map_snd_tag [simp]: "map snd (tag k us) = us"
  by (induction us arbitrary: k) auto

lemma length_tag [simp]: "length (tag k us) = length us"
  by (induction us arbitrary: k) auto

lemma units_of_stores: "u \<in> set (units_of vs) \<Longrightarrow> \<exists>v \<in> set vs. fst u = Visit_StoreID v"
  by (induction vs) auto

lemma tag_stores:
  assumes "t \<in> set (tag k (units_of vs))" "\<forall>v \<in> set vs. getStore (Visit_StoreID v) \<noteq> None"
  shows "getStore (fst (snd t)) \<noteq> None"
proof -
  from assms(1) have "snd t \<in> set (map snd (tag k (units_of vs)))" by (simp del: map_snd_tag)
  then have "snd t \<in> set (units_of vs)" by simp
  from units_of_stores [OF this] assms(2) show ?thesis by auto
qed

lemma keys_ress_of_subseteq: "mset (map result_key (ress_of w ts)) \<subseteq># mset (map snd ts)"
proof (induction ts)
  case Nil
  then show ?case by simp
next
  case (Cons t ts)
  obtain g storeID imageURL where t: "t = (g, storeID, imageURL)" by (cases t) auto
  show ?case
  proof (cases "calculateImagePerimeter w g storeID imageURL")
    case (Inl e)
    with Cons t show ?thesis
      using subset_mset.order_trans [of "mset (map result_key (ress_of w ts))" "mset (map snd ts)"
          "add_mset (storeID, imageURL) (mset (map snd ts))"]
      by simp
  next
    case (Inr r)
    with Cons t calculate_Inr_key [OF Inr] show ?thesis by simp
  qed
qed

lemma errs_of_known:
  "\<forall>t \<in> set ts. getStore (fst (snd t)) \<noteq> None \<Longrightarrow>
     errs_of w ts = map (fetch_error w) (filter (fetch_fails w) ts)"
proof (induction ts)
  case Nil
  then show ?case by simp
next
  case (Cons t ts)
  obtain g storeID imageURL where t: "t = (g, storeID, imageURL)" by (cases t) auto
  with Cons.prems have k: "getStore storeID \<noteq> None" by simp
  from calculate_known [OF k, of w g imageURL] Cons t show ?case
    by (cases "calculateImagePerimeter w g storeID imageURL")
       (auto simp: fetch_fails_def fetch_error_def)
qed

lemma ress_of_known:
  "\<forall>t \<in> set ts. getStore (fst (snd t)) \<noteq> None \<Longrightarrow>
     map result_key (ress_of w ts) = map snd (filter (\<lambda>t. \<not> fetch_fails w t) ts)"
proof (induction ts)
  case Nil
  then show ?case by simp
next
  case (Cons t ts)
  obtain g storeID imageURL where t: "t = (g, storeID, imageURL)" by (cases t) auto
  with Cons.prems have k: "getStore storeID \<noteq> None" by simp
  from calculate_known [OF k, of w g imageURL] Cons t show ?case
    by (cases "calculateImagePerimeter w g storeID imageURL")
       (auto simp: fetch_fails_def dest: calculate_Inr_key)
qed

lemma ress_of_member:
  "r \<in> set (ress_of w ts) \<Longrightarrow>
     \<exists>t \<in> set ts. calculateImagePerimeter w (fst t) (fst (snd t)) (snd (snd t)) = Inr r"
  by (induction ts) (auto split: sum.splits)

lemma err_of_messages: "e \<in> set (err_of w t) \<Longrightarrow> Error e \<noteq> ''Store ID does not exist''"
proof (cases t)
  case (fields g storeID imageURL)
  assume e: "e \<in> set (err_of w t)"
  show ?thesis
  proof (cases "calculateImagePerimeter w g storeID imageURL")
    case (Inl err)
    from calculate_error_hd [OF Inl] have "err \<noteq> ''Store ID does not exist''" by auto
    with e fields Inl show ?thesis by simp
  next
    case (Inr r)
    with e fields show ?thesis by simp
  qed
qed

lemma errs_of_messages: "e \<in> set (errs_of w ts) \<Longrightarrow> Error e \<noteq> ''Store ID does not exist''"
  by (induction ts) (auto dest: err_of_messages)

lemma succeeds_not_fails:
  "fetch_succeeds (w (fst t) (snd (snd t))) \<Longrightarrow> \<not> fetch_fails w t"
  by (cases "w (fst t) (snd (snd t))" rule: fetch_succeeds.cases)
     (auto simp: fetch_fails_def downloadAndGetDimensions_def)

lemma init_ledgers:
  "err_ledger w (processJob (newJob i t) req t') =
     mset (errs_of w (tag 0 (units_of (takeWhile known (Visits req))))) + mset (abort_of (Visits req))"
  "res_ledger w (processJob (newJob i t) req t') =
     mset (ress_of w (tag 0 (units_of (takeWhile known (Visits req)))))"
  by (simp_all add: err_ledger_def res_ledger_def processJob_def newJob_def)

lemma final_ledgers:
  "final p \<Longrightarrow> err_ledger w p = mset (Errors (job p)) \<and> res_ledger w p = mset (Results (job p))"
  by (simp add: final_def err_ledger_def res_ledger_def)

lemma reach_final:
  assumes "run w (processJob (newJob i t) req t') sched = Some p" "final p"
  shows "mset (Errors (job p)) =
           mset (errs_of w (tag 0 (units_of (takeWhile known (Visits req))))) + mset (abort_of (Visits req))"
    and "mset (Results (job p)) = mset (ress_of w (tag 0 (units_of (takeWhile known (Visits req)))))"
  using ledger_run [OF assms(1)] final_ledgers [OF assms(2), of w] init_ledgers [of w i t req t']
  by simp_all

lemma all_known:
  "\<forall>v \<in> set vs. getStore (Visit_StoreID v) \<noteq> None \<Longrightarrow> takeWhile known vs = vs \<and> abort_of vs = []"
  by (induction vs) (auto simp: known_def)

lemma first_unknown:
  assumes "\<forall>u \<in> set pre. getStore (Visit_StoreID u) \<noteq> None" "getStore (Visit_StoreID v) = None"
  shows "takeWhile known (pre @ v # post) = pre"
    and "abort_of (pre @ v # post) =
          [\<lparr>Err_StoreID = Visit_StoreID v, Error = ''Store ID does not exist''\<rparr>]"
  using assms by (induction pre) (auto simp: known_def)

lemma final_status:
  "status_inv p \<Longrightarrow> pc p = Returned \<Longrightarrow>
     CompletedAt (job p) \<noteq> None \<and>
     Status (job p) = (if Errors (job p) = [] then ''completed'' else ''failed'')"
  by (auto simp: status_inv_def)

lemma reach_bounded:
  "run w (processJob j req t) sched = Some p \<Longrightarrow> length sched \<le> steps_left (processJob j req t)"
  using steps_left_run [of w "processJob j req t" sched p] by simp

section \<open>Every store known, every fetch succeeds\<close>

text \<open>
  C1. When every visit's store id is in the store master and the fetch of every
  dispatched image succeeds, \<open>processJob\<close> ends under every schedule (a run has at most
  \<open>steps_left\<close> steps, and a process that is not final can move), and it ends with status
  \<open>completed\<close>, no error, and exactly one result per submitted image URL, whose width and
  height are those of the decoded image and whose perimeter is twice their sum.
\<close>

theorem all_fetches_succeed_completed:
  assumes known: "\<forall>v \<in> set (Visits req). getStore (Visit_StoreID v) \<noteq> None"
    and ok: "\<forall>t \<in> set (tag 0 (units_of (Visits req))). fetch_succeeds (w (fst t) (snd (snd t)))"
    and run: "run w (processJob (newJob jobID t0) req t1) sched = Some p"
  shows "length sched \<le> steps_left (processJob (newJob jobID t0) req t1) \<and>
         (\<not> final p \<longrightarrow> (\<exists>a p'. step w p a = Some p')) \<and>
         (final p \<longrightarrow>
            Status (job p) = ''completed'' \<and> Errors (job p) = [] \<and>
            CompletedAt (job p) \<noteq> None \<and>
            mset (map result_key (Results (job p))) = mset (units_of (Visits req)) \<and>
            (\<forall>r \<in> set (Results (job p)).
               Perimeter r = 2 * real_of_int (Width r + Height r) \<and>
               (\<exists>g minX minY maxX maxY.
                  w g (ImageURL r) = Response 200 (Inr (minX, minY, maxX, maxY)) \<and>
                  Width r = maxX - minX \<and> Height r = maxY - minY)))"
proof -
  let ?T = "tag 0 (units_of (Visits req))"
  have tw: "takeWhile known (Visits req) = Visits req" "abort_of (Visits req) = []"
    using all_known [OF known] by simp_all
  have kn: "\<forall>t \<in> set ?T. getStore (fst (snd t)) \<noteq> None"
    using tag_stores known by blast
  have nofail: "filter (fetch_fails w) ?T = []"
    using ok by (auto simp: filter_empty_conv dest: succeeds_not_fails)
  then have allok: "filter (\<lambda>t. \<not> fetch_fails w t) ?T = ?T"
    by (simp add: filter_empty_conv filter_id_conv)
  have fin: "Status (job p) = ''completed'' \<and> Errors (job p) = [] \<and>
            CompletedAt (job p) \<noteq> None \<and>
            mset (map result_key (Results (job p))) = mset (units_of (Visits req)) \<and>
            (\<forall>r \<in> set (Results (job p)).
               Perimeter r = 2 * real_of_int (Width r + Height r) \<and>
               (\<exists>g minX minY maxX maxY.
                  w g (ImageURL r) = Response 200 (Inr (minX, minY, maxX, maxY)) \<and>
                  Width r = maxX - minX \<and> Height r = maxY - minY))" if f: "final p"
  proof -
    from reach_final [OF run f] tw
    have E: "mset (Errors (job p)) = mset (errs_of w ?T)"
      and R: "mset (Results (job p)) = mset (ress_of w ?T)" by simp_all
    from E errs_of_known [OF kn, of w] nofail have e: "Errors (job p) = []" by simp
    from reach_status_inv [OF run] f final_status [of p] e
    have st: "Status (job p) = ''completed''" "CompletedAt (job p) \<noteq> None"
      by (simp_all add: final_def)
    have "mset (map result_key (Results (job p))) = mset (map result_key (ress_of w ?T))"
      using R by (metis mset_map)
    also have "\<dots> = mset (units_of (Visits req))"
      using ress_of_known [OF kn, of w] allok by simp
    finally have keys: "mset (map result_key (Results (job p))) = mset (units_of (Visits req))" .
    have each: "Perimeter r = 2 * real_of_int (Width r + Height r) \<and>
               (\<exists>g minX minY maxX maxY.
                  w g (ImageURL r) = Response 200 (Inr (minX, minY, maxX, maxY)) \<and>
                  Width r = maxX - minX \<and> Height r = maxY - minY)"
      if "r \<in> set (Results (job p))" for r
    proof -
      from that R have "r \<in> set (ress_of w ?T)" by (metis mset_eq_setD)
      from ress_of_member [OF this] obtain t where
        t: "t \<in> set ?T" "calculateImagePerimeter w (fst t) (fst (snd t)) (snd (snd t)) = Inr r"
        by blast
      from t(1) kn ok have "getStore (fst (snd t)) \<noteq> None" "fetch_succeeds (w (fst t) (snd (snd t)))"
        by auto
      from calculate_success [of "fst (snd t)" w "fst t" "snd (snd t)", OF this] t(2)
      obtain minX minY maxX maxY where
        c: "w (fst t) (snd (snd t)) = Response 200 (Inr (minX, minY, maxX, maxY))"
          "Width r = maxX - minX" "Height r = maxY - minY"
          "Perimeter r = 2 * real_of_int (Width r + Height r)"
        by auto
      from calculate_Inr_key [OF t(2)] have "ImageURL r = snd (snd t)"
        by (cases t) (auto simp: result_key_def)
      with c show ?thesis by metis
    qed
    from e st keys each show ?thesis by blast
  qed
  from reach_bounded [OF run] progress [of p w] fin show ?thesis by blast
qed

theorem all_fetches_succeed_completed_witness:
  "run world_ok (processJob (newJob 1 0) request_two_images 0) schedule_two_images =
     Some state_two_images_done \<and>
   final state_two_images_done \<and>
   Status (job state_two_images_done) = ''completed'' \<and>
   mset (map result_key (Results (job state_two_images_done))) =
     mset [(''S00339218'', ''a''), (''S00339218'', ''b'')] \<and>
   map Perimeter (Results (job state_two_images_done)) = [300, 300]"
proof -
  have k: "\<forall>v \<in> set (Visits request_two_images). getStore (Visit_StoreID v) \<noteq> None"
    by (simp add: request_two_images_def visit_two_images_def getStore_def storeMaster_def)
  have ok: "\<forall>t \<in> set (tag 0 (units_of (Visits request_two_images))).
              fetch_succeeds (world_ok (fst t) (snd (snd t)))"
    by (simp add: world_ok_def)
  have r: "run world_ok (processJob (newJob 1 0) request_two_images 0) schedule_two_images =
             Some state_two_images_done"
    by code_simp
  have f: "final state_two_images_done"
    by (simp add: final_def state_two_images_done_def)
  have u: "units_of (Visits request_two_images) = [(''S00339218'', ''a''), (''S00339218'', ''b'')]"
    by (simp add: request_two_images_def visit_two_images_def)
  have p: "map Perimeter (Results (job state_two_images_done)) = [300, 300]"
    by (simp add: state_two_images_done_def)
  from all_fetches_succeed_completed [OF k ok r] f u r p show ?thesis by simp
qed

section \<open>Every store known, some fetch fails\<close>

text \<open>
  C5. When every store id is known and the fetch of at least one dispatched image fails,
  \<open>processJob\<close> ends under every schedule with status \<open>failed\<close>; the errors are exactly
  one per failed image, carrying its store id and the fetch error, and the results are
  exactly one per image whose fetch succeeded: a failure keeps no sibling from recording.
\<close>

theorem some_fetch_fails_failed:
  assumes known: "\<forall>v \<in> set (Visits req). getStore (Visit_StoreID v) \<noteq> None"
    and fails: "\<exists>t \<in> set (tag 0 (units_of (Visits req))). fetch_fails w t"
    and run: "run w (processJob (newJob jobID t0) req t1) sched = Some p"
  shows "length sched \<le> steps_left (processJob (newJob jobID t0) req t1) \<and>
         (\<not> final p \<longrightarrow> (\<exists>a p'. step w p a = Some p')) \<and>
         (final p \<longrightarrow>
            Status (job p) = ''failed'' \<and> CompletedAt (job p) \<noteq> None \<and>
            mset (Errors (job p)) =
              mset (map (fetch_error w) (filter (fetch_fails w) (tag 0 (units_of (Visits req))))) \<and>
            mset (map result_key (Results (job p))) =
              mset (map snd (filter (\<lambda>t. \<not> fetch_fails w t) (tag 0 (units_of (Visits req))))) \<and>
            length (Errors (job p)) + length (Results (job p)) = length (units_of (Visits req)))"
proof -
  let ?T = "tag 0 (units_of (Visits req))"
  have tw: "takeWhile known (Visits req) = Visits req" "abort_of (Visits req) = []"
    using all_known [OF known] by simp_all
  have kn: "\<forall>t \<in> set ?T. getStore (fst (snd t)) \<noteq> None"
    using tag_stores known by blast
  have fin: "Status (job p) = ''failed'' \<and> CompletedAt (job p) \<noteq> None \<and>
            mset (Errors (job p)) = mset (map (fetch_error w) (filter (fetch_fails w) ?T)) \<and>
            mset (map result_key (Results (job p))) =
              mset (map snd (filter (\<lambda>t. \<not> fetch_fails w t) ?T)) \<and>
            length (Errors (job p)) + length (Results (job p)) = length (units_of (Visits req))"
    if f: "final p"
  proof -
    from reach_final [OF run f] tw
    have E: "mset (Errors (job p)) = mset (errs_of w ?T)"
      and R: "mset (Results (job p)) = mset (ress_of w ?T)" by simp_all
    from E errs_of_known [OF kn, of w]
    have E': "mset (Errors (job p)) = mset (map (fetch_error w) (filter (fetch_fails w) ?T))"
      by simp
    from fails have nf: "filter (fetch_fails w) ?T \<noteq> []" by (simp add: filter_empty_conv)
    have ne: "Errors (job p) \<noteq> []"
    proof
      assume "Errors (job p) = []"
      with E' have "filter (fetch_fails w) ?T = []"
        by (metis mset_zero_iff map_is_Nil_conv mset.simps(1))
      with nf show False by contradiction
    qed
    from reach_status_inv [OF run] f final_status [of p] ne
    have st: "Status (job p) = ''failed''" "CompletedAt (job p) \<noteq> None"
      by (simp_all add: final_def)
    have "mset (map result_key (Results (job p))) = mset (map result_key (ress_of w ?T))"
      using R by (metis mset_map)
    with ress_of_known [OF kn, of w]
    have R': "mset (map result_key (Results (job p))) =
              mset (map snd (filter (\<lambda>t. \<not> fetch_fails w t) ?T))" by simp
    have "length (Errors (job p)) = length (filter (fetch_fails w) ?T)"
      using E' by (metis size_mset length_map)
    moreover have "length (Results (job p)) = length (filter (\<lambda>t. \<not> fetch_fails w t) ?T)"
      using R' by (metis size_mset length_map)
    ultimately have "length (Errors (job p)) + length (Results (job p)) = length ?T"
      using sum_length_filter_compl [of "fetch_fails w" ?T] by simp
    with st E' R' show ?thesis by simp
  qed
  from reach_bounded [OF run] progress [of p w] fin show ?thesis by blast
qed

theorem some_fetch_fails_failed_witness:
  "fetch_fails world_first_fails (0, ''S00339218'', ''a'') \<and>
   run world_first_fails (processJob (newJob 1 0) request_two_images 0) schedule_two_images =
     Some state_first_failed_done \<and>
   final state_first_failed_done \<and>
   Status (job state_first_failed_done) = ''failed'' \<and>
   length (Errors (job state_first_failed_done)) + length (Results (job state_first_failed_done)) = 2"
proof -
  have k: "\<forall>v \<in> set (Visits request_two_images). getStore (Visit_StoreID v) \<noteq> None"
    by (simp add: request_two_images_def visit_two_images_def getStore_def storeMaster_def)
  have ff: "fetch_fails world_first_fails (0, ''S00339218'', ''a'')"
    by (simp add: fetch_fails_def world_first_fails_def downloadAndGetDimensions_def)
  have u: "units_of (Visits request_two_images) = [(''S00339218'', ''a''), (''S00339218'', ''b'')]"
    by (simp add: request_two_images_def visit_two_images_def)
  from ff u have fl: "\<exists>t \<in> set (tag 0 (units_of (Visits request_two_images))).
                        fetch_fails world_first_fails t"
    by simp
  have r: "run world_first_fails (processJob (newJob 1 0) request_two_images 0)
             schedule_two_images = Some state_first_failed_done"
    by code_simp
  have f: "final state_first_failed_done"
    by (simp add: final_def state_first_failed_done_def)
  from some_fetch_fails_failed [OF k fl r] f u ff r show ?thesis by simp
qed

section \<open>An unknown store ends the scan\<close>

text \<open>
  C2. When the visits are \<open>pre @ v # post\<close> with every store of \<open>pre\<close> known and the store
  of \<open>v\<close> unknown, \<open>processJob\<close> returns at \<open>v\<close> under every schedule: the job is then
  \<open>failed\<close>, \<open>completedAt\<close> is set, and exactly one error with the message
  \<open>Store ID does not exist\<close> is recorded, for the store id of \<open>v\<close>. At every moment of
  every run the goroutines in flight, the goroutines launched and the results recorded
  belong to the images of \<open>pre\<close>: no image of \<open>v\<close> or of \<open>post\<close> is dispatched.
\<close>

theorem unknown_store_short_circuit:
  assumes vs: "Visits req = pre @ v # post"
    and known: "\<forall>u \<in> set pre. getStore (Visit_StoreID u) \<noteq> None"
    and unknown: "getStore (Visit_StoreID v) = None"
    and run: "run w (processJob (newJob jobID t0) req t1) sched = Some p"
  shows "length sched \<le> steps_left (processJob (newJob jobID t0) req t1) \<and>
         (\<not> final p \<longrightarrow> (\<exists>a p'. step w p a = Some p')) \<and>
         set (pending p) \<subseteq> set (tag 0 (units_of pre)) \<and>
         spawned p \<le> length (units_of pre) \<and>
         mset (map result_key (Results (job p))) \<subseteq># mset (units_of pre) \<and>
         (pc p = Returned \<longrightarrow>
            Status (job p) = ''failed'' \<and> CompletedAt (job p) \<noteq> None \<and>
            filter (\<lambda>e. Error e = ''Store ID does not exist'') (Errors (job p)) =
              [\<lparr>Err_StoreID = Visit_StoreID v, Error = ''Store ID does not exist''\<rparr>]) \<and>
         (final p \<longrightarrow>
            mset (Errors (job p)) =
              mset (map (fetch_error w) (filter (fetch_fails w) (tag 0 (units_of pre)))) +
              {#\<lparr>Err_StoreID = Visit_StoreID v, Error = ''Store ID does not exist''\<rparr>#} \<and>
            mset (map result_key (Results (job p))) =
              mset (map snd (filter (\<lambda>t. \<not> fetch_fails w t) (tag 0 (units_of pre)))))"
proof -
  let ?T = "tag 0 (units_of pre)"
  let ?e = "\<lparr>Err_StoreID = Visit_StoreID v, Error = ''Store ID does not exist''\<rparr>"
  let ?P = "\<lambda>e. Error e = ''Store ID does not exist''"
  let ?init = "processJob (newJob jobID t0) req t1"
  have tw: "takeWhile known (Visits req) = pre" "abort_of (Visits req) = [?e]"
    using first_unknown [OF known unknown, of post] vs by simp_all
  have kn: "\<forall>t \<in> set ?T. getStore (fst (snd t)) \<noteq> None"
    using tag_stores known by blast
  have li: "launch_inv (units_of pre) p"
    using launch_inv_init [of req "newJob jobID t0" t1] run tw(1) launch_inv_run by metis
  have pend: "set (pending p) \<subseteq> set ?T"
  proof -
    have "set (tag 0 (take (spawned p) (units_of pre))) \<subseteq> set ?T"
      using tag_append [of 0 "take (spawned p) (units_of pre)" "drop (spawned p) (units_of pre)"]
      by (metis append_take_drop_id set_append Un_upper1)
    with li show ?thesis by (auto simp: launch_inv_def)
  qed
  have sp: "spawned p \<le> length (units_of pre)" using li by (simp add: launch_inv_def)
  from ledger_run [OF run] init_ledgers [of w jobID t0 req t1] tw
  have EL: "err_ledger w p = mset (errs_of w ?T) + {#?e#}"
    and RL: "res_ledger w p = mset (ress_of w ?T)" by simp_all
  have "mset (Results (job p)) \<subseteq># mset (ress_of w ?T)"
    using RL by (metis res_ledger_def mset_subset_eq_add_left subset_mset.order_trans)
  then have "mset (map result_key (Results (job p))) \<subseteq># mset (map result_key (ress_of w ?T))"
    by (metis image_mset_subseteq_mono mset_map)
  with keys_ress_of_subseteq [of w ?T]
  have res: "mset (map result_key (Results (job p))) \<subseteq># mset (units_of pre)"
    by (metis map_snd_tag subset_mset.order_trans)
  have filt: "filter_mset ?P (mset (errs_of w ts)) = {#}" for ts
    using errs_of_messages [of _ w ts] by auto
  have ret: "Status (job p) = ''failed'' \<and> CompletedAt (job p) \<noteq> None \<and>
             filter ?P (Errors (job p)) = [?e]" if r: "pc p = Returned"
  proof -
    from r have "err_ledger w p = mset (Errors (job p)) + mset (errs_of w (pending p))"
      by (simp add: err_ledger_def)
    with EL have "mset (Errors (job p)) + mset (errs_of w (pending p)) = mset (errs_of w ?T) + {#?e#}"
      by simp
    then have "filter_mset ?P (mset (Errors (job p)) + mset (errs_of w (pending p))) =
               filter_mset ?P (mset (errs_of w ?T) + {#?e#})" by simp
    then have "filter_mset ?P (mset (Errors (job p))) + filter_mset ?P (mset (errs_of w (pending p))) =
               filter_mset ?P (mset (errs_of w ?T)) + filter_mset ?P {#?e#}"
      by (simp only: filter_union_mset)
    then have "filter_mset ?P (mset (Errors (job p))) = {#?e#}"
      unfolding filt by simp
    then have "mset (filter ?P (Errors (job p))) = {#?e#}" by simp
    then have one: "filter ?P (Errors (job p)) = [?e]" by (simp only: mset_single_iff)
    then have "Errors (job p) \<noteq> []" by auto
    with reach_status_inv [OF run] r final_status [of p] one show ?thesis by simp
  qed
  have fin: "mset (Errors (job p)) = mset (map (fetch_error w) (filter (fetch_fails w) ?T)) + {#?e#} \<and>
             mset (map result_key (Results (job p))) =
               mset (map snd (filter (\<lambda>t. \<not> fetch_fails w t) ?T))" if f: "final p"
  proof -
    from reach_final [OF run f] tw
    have E: "mset (Errors (job p)) = mset (errs_of w ?T) + {#?e#}"
      and R: "mset (Results (job p)) = mset (ress_of w ?T)" by simp_all
    have "mset (map result_key (Results (job p))) = mset (map result_key (ress_of w ?T))"
      using R by (metis mset_map)
    with E errs_of_known [OF kn, of w] ress_of_known [OF kn, of w] show ?thesis by simp
  qed
  from reach_bounded [OF run] progress [of p w] pend sp res ret fin show ?thesis by blast
qed

theorem unknown_store_short_circuit_witness:
  "Visits request_then_unknown = [visit_two_images] @ visit_unknown # [visit_two_images] \<and>
   getStore (Visit_StoreID visit_unknown) = None \<and>
   run world_ok (processJob (newJob 1 0) request_then_unknown 0) schedule_then_unknown =
     Some state_then_unknown_done \<and>
   Status (job state_then_unknown_done) = ''failed'' \<and>
   spawned state_then_unknown_done \<le> 2 \<and>
   filter (\<lambda>e. Error e = ''Store ID does not exist'') (Errors (job state_then_unknown_done)) =
     [\<lparr>Err_StoreID = ''UNKNOWN'', Error = ''Store ID does not exist''\<rparr>]"
proof -
  have vs: "Visits request_then_unknown = [visit_two_images] @ visit_unknown # [visit_two_images]"
    by (simp add: request_then_unknown_def)
  have k: "\<forall>u \<in> set [visit_two_images]. getStore (Visit_StoreID u) \<noteq> None"
    by (simp add: visit_two_images_def getStore_def storeMaster_def)
  have un: "getStore (Visit_StoreID visit_unknown) = None"
    by (simp add: visit_unknown_def getStore_def storeMaster_def)
  have r: "run world_ok (processJob (newJob 1 0) request_then_unknown 0) schedule_then_unknown =
             Some state_then_unknown_done"
    by code_simp
  have rt: "pc state_then_unknown_done = Returned"
    by (simp add: state_then_unknown_done_def)
  have u: "length (units_of [visit_two_images]) = 2" "Visit_StoreID visit_unknown = ''UNKNOWN''"
    by (simp_all add: visit_two_images_def visit_unknown_def)
  from unknown_store_short_circuit [OF vs k un r] rt u vs un r show ?thesis by simp
qed

lemma step_appends:
  assumes "step w p a = Some p'"
  shows "\<exists>rs es. Results (job p') = Results (job p) @ rs \<and> Errors (job p') = Errors (job p) @ es"
  using assms by (elim step_SomeE disjE conjE exE orch_stepE unit_stepE) auto

lemma step_terminal_status:
  assumes "step w p a = Some p'" "Status (job p) = ''completed'' \<or> Status (job p) = ''failed''"
    "status_inv p"
  shows "Status (job p') = Status (job p)"
proof (cases "Status (job p) = ''completed''")
  case True
  with assms(3) have "final p" by (simp add: status_inv_def final_def)
  with assms(1) final_no_step [of p w a] show ?thesis by simp
next
  case False
  with assms(2) have "Status (job p) = ''failed''" by simp
  with assms(1) show ?thesis
    by (elim step_SomeE disjE conjE exE orch_stepE unit_stepE) auto
qed

lemma step_settled:
  assumes "step w p a = Some p'" "settled p"
  shows "settled p' \<and> Results (job p') = Results (job p) \<and> Errors (job p') = Errors (job p)"
  using assms by (elim step_SomeE disjE conjE exE orch_stepE unit_stepE) (auto simp: settled_def)

lemma run_appends:
  "run w p sched = Some p' \<Longrightarrow>
     \<exists>rs es. Results (job p') = Results (job p) @ rs \<and> Errors (job p') = Errors (job p) @ es"
proof (induction sched arbitrary: p)
  case Nil
  then show ?case by simp
next
  case (Cons a sched)
  then obtain q where q: "step w p a = Some q" "run w q sched = Some p'"
    by (auto split: option.splits)
  from step_appends [OF q(1)] Cons.IH [OF q(2)] show ?case by auto
qed

lemma run_terminal_status:
  "run w p sched = Some p' \<Longrightarrow> status_inv p \<Longrightarrow>
     Status (job p) = ''completed'' \<or> Status (job p) = ''failed'' \<Longrightarrow>
     Status (job p') = Status (job p)"
proof (induction sched arbitrary: p)
  case Nil
  then show ?case by simp
next
  case (Cons a sched)
  then obtain q where q: "step w p a = Some q" "run w q sched = Some p'"
    by (auto split: option.splits)
  from step_terminal_status [OF q(1) Cons.prems(3,2)] have s: "Status (job q) = Status (job p)" .
  from status_inv_step [OF Cons.prems(2) q(1)] have "status_inv q" .
  from Cons.IH [OF q(2) this] s Cons.prems(3) show ?case by simp
qed

lemma run_settled:
  "run w p sched = Some p' \<Longrightarrow> settled p \<Longrightarrow>
     Results (job p') = Results (job p) \<and> Errors (job p') = Errors (job p)"
proof (induction sched arbitrary: p)
  case Nil
  then show ?case by simp
next
  case (Cons a sched)
  then obtain q where q: "step w p a = Some q" "run w q sched = Some p'"
    by (auto split: option.splits)
  from step_settled [OF q(1) Cons.prems(2)] Cons.IH [OF q(2)] show ?case by simp
qed

section \<open>A terminal status is final\<close>

text \<open>
  C3, as amended. Once a job's status is \<open>completed\<close> or \<open>failed\<close>, the status never
  changes again, and results and errors are only ever appended to. Once the status is
  \<open>completed\<close>, or once no goroutine of the job is in flight and the scan of the visits
  is over, results and errors no longer change either, so every later poll sees the
  same status, results and errors.
\<close>

theorem terminal_status_stable:
  assumes "run w (processJob (newJob jobID t0) req t1) sched = Some p"
    and "run w p sched' = Some p'"
  shows "(Status (job p) = ''completed'' \<or> Status (job p) = ''failed'' \<longrightarrow>
            Status (job p') = Status (job p)) \<and>
         (\<exists>rs es. Results (job p') = Results (job p) @ rs \<and> Errors (job p') = Errors (job p) @ es) \<and>
         (Status (job p) = ''completed'' \<or> settled p \<longrightarrow>
            Results (job p') = Results (job p) \<and> Errors (job p') = Errors (job p))"
proof -
  have inv: "status_inv p" using assms(1) by (rule reach_status_inv)
  have "settled p" if "Status (job p) = ''completed''"
    using inv that by (simp add: status_inv_def settled_def)
  with run_terminal_status [OF assms(2) inv] run_appends [OF assms(2)] run_settled [OF assms(2)]
  show ?thesis by blast
qed

theorem terminal_status_stable_witness:
  "run world_ok (processJob (newJob 1 0) request_two_images 0) schedule_two_images =
     Some state_two_images_done \<and>
   run world_ok state_two_images_done [] = Some state_two_images_done \<and>
   Status (job state_two_images_done) = ''completed'' \<and>
   settled state_two_images_done \<and>
   run world_first_fails (processJob (newJob 1 0) request_two_images 0) [Orch, Orch, Orch, Unit 0] =
     Some state_first_failed \<and>
   run world_first_fails state_first_failed [Unit 1, Orch, Orch, Orch] = Some state_first_failed_done \<and>
   Status (job state_first_failed) = ''failed'' \<and>
   Status (job state_first_failed_done) = Status (job state_first_failed)"
proof -
  have r: "run world_ok (processJob (newJob 1 0) request_two_images 0) schedule_two_images =
             Some state_two_images_done"
    by code_simp
  have r': "run world_ok state_two_images_done [] = Some state_two_images_done" by simp
  have c: "Status (job state_two_images_done) = ''completed''" "settled state_two_images_done"
    by (simp_all add: state_two_images_done_def settled_def)
  have q: "run world_first_fails (processJob (newJob 1 0) request_two_images 0)
             [Orch, Orch, Orch, Unit 0] = Some state_first_failed"
    by code_simp
  have q': "run world_first_fails state_first_failed [Unit 1, Orch, Orch, Orch] =
              Some state_first_failed_done"
    by code_simp
  have f: "Status (job state_first_failed) = ''failed''"
    by (simp add: state_first_failed_def)
  from terminal_status_stable [OF q q'] f
  have "Status (job state_first_failed_done) = Status (job state_first_failed)" by blast
  with r r' c q q' f show ?thesis by simp
qed

text \<open>
  C3 as stated fails: in the run below the first goroutine's fetch fails, which sets the
  status to \<open>failed\<close> while the second goroutine is in flight; that goroutine then appends
  its result to the job whose status is already terminal.
\<close>

theorem failed_job_still_grows:
  "run world_first_fails (processJob (newJob 1 0) request_two_images 0) [Orch, Orch, Orch, Unit 0] =
     Some state_first_failed \<and>
   Status (job state_first_failed) = ''failed'' \<and>
   Results (job state_first_failed) = [] \<and>
   map_option (length \<circ> Results \<circ> job) (step world_first_fails state_first_failed (Unit 1)) = Some 1 \<and>
   map_option (Status \<circ> job) (step world_first_fails state_first_failed (Unit 1)) = Some ''failed''"
proof -
  have "run world_first_fails (processJob (newJob 1 0) request_two_images 0)
          [Orch, Orch, Orch, Unit 0] = Some state_first_failed"
    by code_simp
  moreover have "map_option (length \<circ> Results \<circ> job)
      (step world_first_fails state_first_failed (Unit 1)) = Some 1"
    by code_simp
  moreover have "map_option (Status \<circ> job)
      (step world_first_fails state_first_failed (Unit 1)) = Some ''failed''"
    by code_simp
  ultimately show ?thesis by (simp add: state_first_failed_def)
qed

lemma join_inv_clock [simp]: "join_inv (q\<lparr>clock := c\<rparr>) = join_inv q"
  by (simp add: join_inv_def)

lemma join_inv_orch: "join_inv p \<Longrightarrow> orch_step p = Some p' \<Longrightarrow> join_inv p'"
  by (erule orch_stepE) (auto simp: join_inv_def known_def split: if_splits)

lemma join_inv_unit: "join_inv p \<Longrightarrow> unit_step w p g = Some p' \<Longrightarrow> join_inv p'"
  by (erule unit_stepE) (auto simp: join_inv_def)

lemma join_inv_step: "join_inv p \<Longrightarrow> step w p a = Some p' \<Longrightarrow> join_inv p'"
  by (erule step_SomeE) (auto dest: join_inv_orch join_inv_unit)

lemma join_inv_run: "join_inv p \<Longrightarrow> run w p sched = Some p' \<Longrightarrow> join_inv p'"
  by (induction sched arbitrary: p) (auto split: option.splits dest: join_inv_step)

lemma join_inv_init:
  "\<forall>v \<in> set (Visits req). getStore (Visit_StoreID v) \<noteq> None \<Longrightarrow> join_inv (processJob j req t)"
  using all_known [of "Visits req"] by (simp add: join_inv_def processJob_def)

lemma units_of_append: "units_of (xs @ ys) = units_of xs @ units_of ys"
  by (simp add: units_of_def)

lemma dispatched_known:
  assumes "launch_inv (units_of (takeWhile known (Visits req))) p"
  shows "dispatched req p = tag 0 (take (spawned p) (units_of (takeWhile known (Visits req))))"
proof -
  have "units_of (Visits req) =
          units_of (takeWhile known (Visits req)) @ units_of (dropWhile known (Visits req))"
    by (metis units_of_append takeWhile_dropWhile_id)
  with assms show ?thesis by (simp add: dispatched_def launch_inv_def)
qed

lemma takeWhile_known_stores:
  "t \<in> set (tag k (units_of (takeWhile known vs))) \<Longrightarrow> getStore (fst (snd t)) \<noteq> None"
proof -
  assume t: "t \<in> set (tag k (units_of (takeWhile known vs)))"
  have "\<forall>v \<in> set (takeWhile known vs). getStore (Visit_StoreID v) \<noteq> None"
    by (auto dest: set_takeWhileD simp: known_def)
  from tag_stores [OF t this] show ?thesis .
qed

lemma step_CompletedAt:
  assumes "step w p a = Some p'" "pc p = Returned"
  shows "CompletedAt (job p') = CompletedAt (job p) \<and> pc p' = Returned"
  using assms by (elim step_SomeE disjE conjE exE orch_stepE unit_stepE) auto

lemma run_CompletedAt:
  "run w p sched = Some p' \<Longrightarrow> pc p = Returned \<Longrightarrow> CompletedAt (job p') = CompletedAt (job p)"
proof (induction sched arbitrary: p)
  case Nil
  then show ?case by simp
next
  case (Cons a sched)
  then obtain q where q: "step w p a = Some q" "run w q sched = Some p'"
    by (auto split: option.splits)
  from step_CompletedAt [OF q(1) Cons.prems(2)] Cons.IH [OF q(2)] show ?case by simp
qed

lemma returned_complete:
  assumes run: "run w (processJob (newJob jobID t0) req t1) sched = Some p"
    and ret: "pc p = Returned" and np: "pending p = []" and na: "abort_of (Visits req) = []"
  shows "mset (Errors (job p)) =
           mset (map (fetch_error w) (filter (fetch_fails w) (dispatched req p))) \<and>
         mset (map result_key (Results (job p))) =
           mset (map snd (filter (\<lambda>t. \<not> fetch_fails w t) (dispatched req p))) \<and>
         length (Errors (job p)) + length (Results (job p)) = spawned p"
proof -
  let ?A = "units_of (takeWhile known (Visits req))"
  have li: "launch_inv ?A p"
    using launch_inv_init run by (rule launch_inv_run)
  with ret have "spawned p = length ?A" by (simp add: launch_inv_def)
  with dispatched_known [OF li] have d: "dispatched req p = tag 0 ?A" by simp
  have kn: "\<forall>t \<in> set (dispatched req p). getStore (fst (snd t)) \<noteq> None"
    unfolding d using takeWhile_known_stores by blast
  have f: "final p" using ret np by (simp add: final_def)
  from reach_final [OF run f] na d
  have E: "mset (Errors (job p)) = mset (errs_of w (dispatched req p))"
    and R: "mset (Results (job p)) = mset (ress_of w (dispatched req p))" by simp_all
  from E errs_of_known [OF kn, of w]
  have E': "mset (Errors (job p)) =
              mset (map (fetch_error w) (filter (fetch_fails w) (dispatched req p)))"
    by simp
  have "mset (map result_key (Results (job p))) = mset (map result_key (ress_of w (dispatched req p)))"
    using R by (metis mset_map)
  with ress_of_known [OF kn, of w]
  have R': "mset (map result_key (Results (job p))) =
              mset (map snd (filter (\<lambda>t. \<not> fetch_fails w t) (dispatched req p)))" by simp
  have "length (Errors (job p)) = length (filter (fetch_fails w) (dispatched req p))"
    using E' by (metis size_mset length_map)
  moreover have "length (Results (job p)) =
      length (filter (\<lambda>t. \<not> fetch_fails w t) (dispatched req p))"
    using R' by (metis size_mset length_map)
  ultimately have "length (Errors (job p)) + length (Results (job p)) = length (dispatched req p)"
    using sum_length_filter_compl [of "fetch_fails w" "dispatched req p"] by simp
  moreover have "length (dispatched req p) = spawned p"
    using d \<open>spawned p = length ?A\<close> by simp
  ultimately show ?thesis using E' R' by simp
qed

section \<open>The outcome set at completion\<close>

text \<open>
  C4, as amended. \<open>completedAt\<close> is set exactly by the step with which \<open>processJob\<close>
  returns and never changes afterwards. When every store id is known, \<open>processJob\<close>
  returns only after every goroutine it dispatched has settled; from then on, and whenever
  the status is \<open>completed\<close>, no goroutine is in flight and every dispatched image has
  exactly one error (its fetch failed) or exactly one result (its fetch succeeded)
  recorded in the job.
\<close>

theorem outcomes_complete_after_join:
  assumes run: "run w (processJob (newJob jobID t0) req t1) sched = Some p"
  shows "(CompletedAt (job p) \<noteq> None \<longleftrightarrow> pc p = Returned) \<and>
         (\<forall>sched' p'. run w p sched' = Some p' \<and> CompletedAt (job p) \<noteq> None \<longrightarrow>
            CompletedAt (job p') = CompletedAt (job p)) \<and>
         (((\<forall>v \<in> set (Visits req). getStore (Visit_StoreID v) \<noteq> None) \<and> pc p = Returned) \<or>
          Status (job p) = ''completed'' \<longrightarrow>
            pending p = [] \<and>
            mset (Errors (job p)) =
              mset (map (fetch_error w) (filter (fetch_fails w) (dispatched req p))) \<and>
            mset (map result_key (Results (job p))) =
              mset (map snd (filter (\<lambda>t. \<not> fetch_fails w t) (dispatched req p))) \<and>
            length (Errors (job p)) + length (Results (job p)) = spawned p)"
proof -
  have inv: "status_inv p" using run by (rule reach_status_inv)
  have a: "CompletedAt (job p) \<noteq> None \<longleftrightarrow> pc p = Returned"
    using inv by (simp add: status_inv_def)
  have b: "CompletedAt (job p') = CompletedAt (job p)"
    if "run w p sched' = Some p'" "CompletedAt (job p) \<noteq> None" for sched' p'
    using run_CompletedAt [OF that(1)] that(2) a by simp
  have c1: "pending p = [] \<and> abort_of (Visits req) = [] \<and> pc p = Returned"
    if k: "\<forall>v \<in> set (Visits req). getStore (Visit_StoreID v) \<noteq> None" and r: "pc p = Returned"
  proof -
    have "join_inv p" using join_inv_init [OF k] run by (rule join_inv_run)
    with r all_known [OF k] show ?thesis by (simp add: join_inv_def)
  qed
  have c2: "pending p = [] \<and> abort_of (Visits req) = [] \<and> pc p = Returned"
    if c: "Status (job p) = ''completed''"
  proof -
    from inv c have f: "pc p = Returned" "pending p = []" "Errors (job p) = []"
      by (auto simp: status_inv_def)
    then have "final p" by (simp add: final_def)
    from reach_final(1) [OF run this] f(3) show ?thesis using f by simp
  qed
  from a b c1 c2 returned_complete [OF run] show ?thesis by blast
qed

theorem outcomes_complete_after_join_witness:
  "run world_first_fails (processJob (newJob 1 0) request_two_images 0) schedule_two_images =
     Some state_first_failed_done \<and>
   pc state_first_failed_done = Returned \<and>
   pending state_first_failed_done = [] \<and>
   CompletedAt (job state_first_failed_done) = Some 7 \<and>
   length (Errors (job state_first_failed_done)) + length (Results (job state_first_failed_done)) =
     spawned state_first_failed_done"
proof -
  have k: "\<forall>v \<in> set (Visits request_two_images). getStore (Visit_StoreID v) \<noteq> None"
    by (simp add: request_two_images_def visit_two_images_def getStore_def storeMaster_def)
  have r: "run world_first_fails (processJob (newJob 1 0) request_two_images 0)
             schedule_two_images = Some state_first_failed_done"
    by code_simp
  have rt: "pc state_first_failed_done = Returned"
    "CompletedAt (job state_first_failed_done) = Some 7"
    by (simp_all add: state_first_failed_done_def)
  from outcomes_complete_after_join [OF r] k rt
  have "pending state_first_failed_done = [] \<and>
        length (Errors (job state_first_failed_done)) +
        length (Results (job state_first_failed_done)) = spawned state_first_failed_done"
    by blast
  with r rt show ?thesis by simp
qed

text \<open>
  C4 as stated fails: a failing goroutine sets the terminal status \<open>failed\<close> in its own
  critical section. In the run below the job is \<open>failed\<close> while the second dispatched
  goroutine is still in flight, with neither a result nor an error recorded for its
  image.
\<close>

theorem failed_before_outcomes_complete:
  "run world_first_fails (processJob (newJob 1 0) request_two_images 0) [Orch, Orch, Orch, Unit 0] =
     Some state_first_failed \<and>
   Status (job state_first_failed) = ''failed'' \<and>
   dispatched request_two_images state_first_failed =
     [(0, ''S00339218'', ''a''), (1, ''S00339218'', ''b'')] \<and>
   pending state_first_failed = [(1, ''S00339218'', ''b'')] \<and>
   map Err_StoreID (Errors (job state_first_failed)) @ map Res_StoreID (Results (job state_first_failed)) =
     [''S00339218'']"
proof -
  have "run world_first_fails (processJob (newJob 1 0) request_two_images 0)
          [Orch, Orch, Orch, Unit 0] = Some state_first_failed"
    by code_simp
  then show ?thesis
    by (simp add: state_first_failed_def dispatched_def request_two_images_def visit_two_images_def
        numeral_2_eq_2)
qed

lemma decode_array_None:
  "\<exists>x \<in> set xs. \<forall>e. dec e x = None \<Longrightarrow> decode_array dec zero backing xs = None"
proof (induction xs arbitrary: backing)
  case Nil
  then show ?case by simp
next
  case (Cons a xs)
  from Cons.prems consider "\<forall>e. dec e a = None" | "\<exists>x \<in> set xs. \<forall>e. dec e x = None"
    by auto
  then show ?case
  proof cases
    case 1
    then show ?thesis by simp
  next
    case 2
    from Cons.IH [OF 2] show ?thesis by (simp split: option.splits)
  qed
qed

lemma decode_Visit_object_unknown:
  "unknown_key eqFold Visit_fields kvs \<Longrightarrow> decode_Visit_object eqFold v kvs = None"
proof (induction kvs arbitrary: v)
  case Nil
  then show ?case by (simp add: unknown_key_def)
next
  case (Cons kv kvs)
  obtain key x where kv: "kv = (key, x)" by (cases kv) auto
  show ?case
  proof (cases "lookup_field eqFold Visit_fields key")
    case None
    with kv show ?thesis by simp
  next
    case (Some f)
    with Cons.prems kv have "unknown_key eqFold Visit_fields kvs" by (simp add: unknown_key_def)
    with Cons.IH kv Some show ?thesis by (simp split: option.splits)
  qed
qed

lemma decode_Visit_unknown: "visit_unknown_field eqFold x \<Longrightarrow> decode_Visit eqFold v x = None"
  by (cases x) (auto simp: decode_Visit_object_unknown)

lemma decode_Visits_unknown:
  assumes "visits_unknown_field eqFold x"
  shows "decode_slice (decode_Visit eqFold) zero s x = None"
proof (cases x)
  case (JArr xs)
  with assms obtain y where y: "y \<in> set xs" "visit_unknown_field eqFold y"
    by (auto simp: list_ex_iff)
  then have "\<exists>x \<in> set xs. \<forall>e. decode_Visit eqFold e x = None"
    using decode_Visit_unknown [of eqFold y] by blast
  from decode_array_None [OF this] y(1) JArr show ?thesis by (cases xs) auto
qed (use assms in auto)

lemma decode_request_object_unknown:
  "unknown_key eqFold SubmitJobRequest_fields kvs \<or>
   list_ex (\<lambda>kv. lookup_field eqFold SubmitJobRequest_fields (fst kv) = Some ''visits'' \<and>
                 visits_unknown_field eqFold (snd kv)) kvs
   \<Longrightarrow> decode_request_object eqFold req kvs = None"
proof (induction kvs arbitrary: req)
  case Nil
  then show ?case by (simp add: unknown_key_def)
next
  case (Cons kv kvs)
  obtain key x where kv: "kv = (key, x)" by (cases kv) auto
  show ?case
  proof (cases "lookup_field eqFold SubmitJobRequest_fields key")
    case None
    with kv show ?thesis by simp
  next
    case (Some f)
    show ?thesis
    proof (cases "f = ''visits'' \<and> visits_unknown_field eqFold x")
      case True
      with Some kv decode_Visits_unknown [of eqFold x] show ?thesis by simp
    next
      case False
      with Cons.prems kv Some
      have "unknown_key eqFold SubmitJobRequest_fields kvs \<or>
            list_ex (\<lambda>kv. lookup_field eqFold SubmitJobRequest_fields (fst kv) = Some ''visits'' \<and>
                 visits_unknown_field eqFold (snd kv)) kvs"
        by (auto simp: unknown_key_def)
      with Cons.IH kv Some show ?thesis by (simp split: option.splits)
    qed
  qed
qed

lemma decode_unknown_field: "has_unknown_field eqFold j \<Longrightarrow> decode eqFold (Some j) = None"
  by (cases j) (auto simp: decode_request_object_unknown)

section \<open>Validation of a submission\<close>

text \<open>
  C6. \<open>handleSubmitJob\<close> rejects a payload with a field the request types do not have, a
  payload whose count differs from the number of its visits, and a payload with count
  zero and visits. Each is answered with a 400 error, the registry is returned as it was
  (no job is created, the counter is not advanced) and no \<open>processJob\<close> is started, so
  nothing is recorded in any job.
\<close>

theorem invalid_submission_rejected:
  "(has_unknown_field eqFold j \<longrightarrow>
      (\<exists>message. handleSubmitJob eqFold reg now method (Some j) = (reg, responseError message, None))) \<and>
   (decode eqFold body = Some req \<and> Count req \<noteq> int (length (Visits req)) \<longrightarrow>
      (\<exists>message. handleSubmitJob eqFold reg now method body = (reg, responseError message, None))) \<and>
   (decode eqFold body = Some req \<and> Count req = 0 \<and> Visits req \<noteq> [] \<longrightarrow>
      (\<exists>message. handleSubmitJob eqFold reg now method body = (reg, responseError message, None)))"
  by (auto simp: handleSubmitJob_def decode_unknown_field)

theorem invalid_submission_rejected_witness:
  "has_unknown_field (=) body_extra_field \<and>
   handleSubmitJob (=) registry_empty 5 ''POST'' (Some body_extra_field) =
     (registry_empty, responseError ''Invalid request payload'', None) \<and>
   decode (=) (Some (JObj [(''count'', JInt 2), (''visits'', JArr [JNull])])) =
     Some \<lparr>Count = 2, Visits = [\<lparr>Visit_StoreID = [], ImageURLs = [], VisitTime = []\<rparr>]\<rparr> \<and>
   handleSubmitJob (=) registry_empty 5 ''POST''
       (Some (JObj [(''count'', JInt 2), (''visits'', JArr [JNull])])) =
     (registry_empty, responseError ''Count does not match number of visits'', None)"
proof -
  have u: "has_unknown_field (=) body_extra_field"
    by (simp add: body_extra_field_def unknown_key_def lookup_field_def SubmitJobRequest_fields_def)
  have d: "decode (=) (Some (JObj [(''count'', JInt 2), (''visits'', JArr [JNull])])) =
     Some \<lparr>Count = 2, Visits = [\<lparr>Visit_StoreID = [], ImageURLs = [], VisitTime = []\<rparr>]\<rparr>"
    by (simp add: lookup_field_def SubmitJobRequest_fields_def zero_Request_def zero_Visit_def
        Request_of_def Visit_of_def)
  from invalid_submission_rejected [of "(=)" body_extra_field registry_empty 5 "''POST''"
      "Some (JObj [(''count'', JInt 2), (''visits'', JArr [JNull])])"
      "\<lparr>Count = 2, Visits = [\<lparr>Visit_StoreID = [], ImageURLs = [], VisitTime = []\<rparr>]\<rparr>"] u d
  obtain m1 m2 where
    m1: "handleSubmitJob (=) registry_empty 5 ''POST'' (Some body_extra_field) =
           (registry_empty, responseError m1, None)"
    and m2: "handleSubmitJob (=) registry_empty 5 ''POST''
               (Some (JObj [(''count'', JInt 2), (''visits'', JArr [JNull])])) =
           (registry_empty, responseError m2, None)"
    by auto
  have "m1 = ''Invalid request payload''"
    using m1 u by (simp add: handleSubmitJob_def decode_unknown_field responseError_def)
  moreover have "m2 = ''Count does not match number of visits''"
    using m2 d by (simp add: handleSubmitJob_def responseError_def del: decode.simps)
  ultimately show ?thesis using u d m1 m2 by simp
qed

lemma step_ID: "step w p a = Some p' \<Longrightarrow> ID (job p') = ID (job p)"
  by (elim step_SomeE disjE conjE exE orch_stepE unit_stepE) auto

lemma run_ID: "run w p sched = Some p' \<Longrightarrow> ID (job p') = ID (job p)"
  by (induction sched arbitrary: p) (auto split: option.splits dest: step_ID)

lemma atoi_Nil: "atoi [] = None"
  by (simp add: atoi_def)

text \<open>
  The single writes of a step add up to the step: the last of them leaves the job as the
  step does, and a step without a write leaves the job as it was.
\<close>

lemma orch_writes_last: "orch_step p = Some p' \<Longrightarrow> job p' = last (job p # orch_writes p)"
  by (erule orch_stepE) (auto simp: orch_writes_def)

lemma unit_writes_last: "unit_step w p g = Some p' \<Longrightarrow> job p' = last (job p # unit_writes w p g)"
  by (auto simp: unit_step_def unit_writes_def split: option.splits sum.splits prod.splits)

lemma step_writes_last: "step w p a = Some p' \<Longrightarrow> job p' = last (job p # step_writes w p a)"
  by (erule step_SomeE) (auto simp: step_writes_def dest: orch_writes_last unit_writes_last)

text \<open>
  When the three reads of \<open>handleJobStatus\<close> find the job in one state that \<open>processJob\<close>
  has left between two of its steps, the response carries the field \<open>error\<close> exactly when
  the status is \<open>failed\<close>, and the list is then not empty.
\<close>

lemma status_response_between_steps:
  assumes run: "run w (processJob (newJob jobID t0) req t1) sched = Some p"
    and reg: "jobs reg k = Some (job p)"
    and query: "atoi jobIDStr = Some k"
  shows "handleJobStatus reg ''GET'' jobIDStr (job p) (job p) =
           JSON 200 (JObj ([(''status'', JStr (Status (job p))), (''job_id'', JStr (itoa jobID))] @
                           (if Status (job p) = ''failed''
                            then [(''error'', JArr (map encode_StoreError (Errors (job p))))]
                            else [])))"
    and "Status (job p) = ''failed'' \<longrightarrow> Errors (job p) \<noteq> []"
proof -
  have inv: "status_inv p" using run by (rule reach_status_inv)
  have id: "ID (job p) = jobID" using run_ID [OF run] by (simp add: processJob_def newJob_def)
  have ne: "jobIDStr \<noteq> []" using query atoi_Nil by auto
  from inv show f: "Status (job p) = ''failed'' \<longrightarrow> Errors (job p) \<noteq> []"
    by (auto simp: status_inv_def)
  from reg query ne id f show "handleJobStatus reg ''GET'' jobIDStr (job p) (job p) =
           JSON 200 (JObj ([(''status'', JStr (Status (job p))), (''job_id'', JStr (itoa jobID))] @
                           (if Status (job p) = ''failed''
                            then [(''error'', JArr (map encode_StoreError (Errors (job p))))]
                            else [])))"
    by (simp add: handleJobStatus_def encode_JobStatusResponse_def)
qed

section \<open>The status response\<close>

text \<open>
  C7. The response is to carry the error list exactly when the status is \<open>failed\<close>.
  \<open>handleJobStatus\<close> reads the job without the mutex that every write of \<open>processJob\<close>
  holds, and it does not do so when a goroutine fails during the request. In the run
  below both goroutines are in flight and the job is \<open>ongoing\<close>; the first goroutine then
  fails, writing the status and after it the error. A request whose first read comes
  before these writes and whose other reads come after them is answered with status
  \<open>ongoing\<close> and an error list. A request whose reads all fall between the two writes is
  answered with status \<open>failed\<close> and no error list.
\<close>

theorem status_poll_torn_by_failure:
  "run world_first_fails (processJob (newJob 1 0) request_two_images 0) [Orch, Orch, Orch] =
     Some state_both_in_flight \<and>
   Status (job state_both_in_flight) = ''ongoing'' \<and>
   step_writes world_first_fails state_both_in_flight (Unit 0) =
     [job_failed_unrecorded, job state_first_failed] \<and>
   handleJobStatus \<lparr>jobs = [1 \<mapsto> job state_both_in_flight], nextJobID = 2\<rparr> ''GET'' ''1''
       (job state_first_failed) (job state_first_failed) =
     JSON 200 (JObj [(''status'', JStr ''ongoing''), (''job_id'', JStr ''1''),
       (''error'', JArr [JObj [(''store_id'', JStr ''S00339218''),
                               (''error'', JStr ''error downloading image: timeout'')]])]) \<and>
   handleJobStatus \<lparr>jobs = [1 \<mapsto> job_failed_unrecorded], nextJobID = 2\<rparr> ''GET'' ''1''
       job_failed_unrecorded job_failed_unrecorded =
     JSON 200 (JObj [(''status'', JStr ''failed''), (''job_id'', JStr ''1'')])"
proof -
  have r: "run world_first_fails (processJob (newJob 1 0) request_two_images 0) [Orch, Orch, Orch] =
             Some state_both_in_flight"
    by code_simp
  have s: "Status (job state_both_in_flight) = ''ongoing''"
    by (simp add: state_both_in_flight_def)
  have w: "step_writes world_first_fails state_both_in_flight (Unit 0) =
             [job_failed_unrecorded, job state_first_failed]"
    by (simp add: step_writes_def unit_writes_def state_both_in_flight_def state_first_failed_def
        job_failed_unrecorded_def world_first_fails_def calculateImagePerimeter_def
        downloadAndGetDimensions_def getStore_def storeMaster_def)
  have a: "atoi ''1'' = Some 1" by code_simp
  have i: "itoa 1 = ''1''" by code_simp
  have h1: "handleJobStatus \<lparr>jobs = [1 \<mapsto> job state_both_in_flight], nextJobID = 2\<rparr> ''GET'' ''1''
       (job state_first_failed) (job state_first_failed) =
     JSON 200 (JObj [(''status'', JStr ''ongoing''), (''job_id'', JStr ''1''),
       (''error'', JArr [JObj [(''store_id'', JStr ''S00339218''),
                               (''error'', JStr ''error downloading image: timeout'')]])])"
    using a i
    by (simp add: handleJobStatus_def encode_JobStatusResponse_def encode_StoreError_def
        state_both_in_flight_def state_first_failed_def)
  have h2: "handleJobStatus \<lparr>jobs = [1 \<mapsto> job_failed_unrecorded], nextJobID = 2\<rparr> ''GET'' ''1''
       job_failed_unrecorded job_failed_unrecorded =
     JSON 200 (JObj [(''status'', JStr ''failed''), (''job_id'', JStr ''1'')])"
    using a i
    by (simp add: handleJobStatus_def encode_JobStatusResponse_def job_failed_unrecorded_def)
  from r s w h1 h2 show ?thesis by simp
qed

section \<open>The empty batch\<close>

text \<open>
  C10. A submission that decodes to count 0 and no visits passes validation:
  \<open>handleSubmitJob\<close> stores a new job with status \<open>ongoing\<close> under the next id, answers
  201 with that id and starts \<open>processJob\<close>. That process has nothing to scan and nothing
  to launch: every run has at most two steps and ends with status \<open>completed\<close>, no
  results and no errors.
\<close>

theorem empty_submission_completes:
  assumes dec: "decode eqFold body = Some req" and c: "Count req = 0" and v: "Visits req = []"
  shows "handleSubmitJob eqFold reg now ''POST'' body =
           (\<lparr>jobs = (jobs reg)(nextJobID reg \<mapsto> newJob (nextJobID reg) now),
             nextJobID = wrap64 (nextJobID reg + 1)\<rparr>,
            JSON 201 (JObj [(''job_id'', JInt (nextJobID reg))]),
            Some (newJob (nextJobID reg) now, req)) \<and>
         Status (newJob (nextJobID reg) now) = ''ongoing'' \<and>
         (\<exists>p. run w (processJob (newJob (nextJobID reg) now) req t) [Orch, Orch] = Some p \<and> final p) \<and>
         (\<forall>sched p. run w (processJob (newJob (nextJobID reg) now) req t) sched = Some p \<longrightarrow>
            length sched \<le> 2 \<and>
            (\<not> final p \<longrightarrow> (\<exists>a p'. step w p a = Some p')) \<and>
            (final p \<longrightarrow> Status (job p) = ''completed'' \<and> Results (job p) = [] \<and>
               Errors (job p) = [] \<and> CompletedAt (job p) \<noteq> None))"
proof -
  let ?j = "newJob (nextJobID reg) now"
  have h: "handleSubmitJob eqFold reg now ''POST'' body =
           (\<lparr>jobs = (jobs reg)(nextJobID reg \<mapsto> ?j), nextJobID = wrap64 (nextJobID reg + 1)\<rparr>,
            JSON 201 (JObj [(''job_id'', JInt (nextJobID reg))]), Some (?j, req))"
    using dec c v by (simp add: handleSubmitJob_def Let_def)
  have o: "Status ?j = ''ongoing''" by (simp add: newJob_def)
  have e: "\<exists>p. run w (processJob ?j req t) [Orch, Orch] = Some p \<and> final p"
    using v by (simp add: processJob_def step_def orch_step_def final_def)
  have a: "length sched \<le> 2 \<and>
            (\<not> final p \<longrightarrow> (\<exists>a p'. step w p a = Some p')) \<and>
            (final p \<longrightarrow> Status (job p) = ''completed'' \<and> Results (job p) = [] \<and>
               Errors (job p) = [] \<and> CompletedAt (job p) \<noteq> None)"
    if r: "run w (processJob ?j req t) sched = Some p" for sched p
  proof -
    from reach_bounded [OF r] v have l: "length sched \<le> 2"
      by (simp add: steps_left_def processJob_def)
    have f: "Status (job p) = ''completed'' \<and> Results (job p) = [] \<and>
               Errors (job p) = [] \<and> CompletedAt (job p) \<noteq> None" if f: "final p"
    proof -
      from reach_final [OF r f] v have "Errors (job p) = []" "Results (job p) = []" by simp_all
      with reach_status_inv [OF r] f final_status [of p] show ?thesis by (simp add: final_def)
    qed
    from l f progress [of p w] show ?thesis by blast
  qed
  from h o e a show ?thesis by blast
qed

theorem empty_submission_completes_witness:
  "decode (=) (Some body_empty_batch) = Some \<lparr>Count = 0, Visits = []\<rparr> \<and>
   snd (handleSubmitJob (=) registry_empty 5 ''POST'' (Some body_empty_batch)) =
     (JSON 201 (JObj [(''job_id'', JInt 1)]), Some (newJob 1 5, \<lparr>Count = 0, Visits = []\<rparr>)) \<and>
   jobs (fst (handleSubmitJob (=) registry_empty 5 ''POST'' (Some body_empty_batch))) 1 =
     Some (newJob 1 5) \<and>
   run world_ok (processJob (newJob 1 5) \<lparr>Count = 0, Visits = []\<rparr> 5) [Orch, Orch] =
     Some \<lparr>job = \<lparr>ID = 1, Status = ''completed'', Results = [], Errors = [],
                   CreatedAt = Some 5, CompletedAt = Some 6\<rparr>,
            pc = Returned, pending = [], spawned = 0, clock = 7\<rparr>"
proof -
  have d: "decode (=) (Some body_empty_batch) = Some \<lparr>Count = 0, Visits = []\<rparr>"
    by (simp add: body_empty_batch_def lookup_field_def SubmitJobRequest_fields_def
        zero_Request_def Request_of_def)
  have n: "nextJobID registry_empty = 1" by (simp add: registry_empty_def)
  have r: "run world_ok (processJob (newJob 1 5) \<lparr>Count = 0, Visits = []\<rparr> 5) [Orch, Orch] =
     Some \<lparr>job = \<lparr>ID = 1, Status = ''completed'', Results = [], Errors = [],
                   CreatedAt = Some 5, CompletedAt = Some 6\<rparr>,
            pc = Returned, pending = [], spawned = 0, clock = 7\<rparr>"
    by code_simp
  from empty_submission_completes [OF d, of registry_empty 5 world_ok 5] n
  have "handleSubmitJob (=) registry_empty 5 ''POST'' (Some body_empty_batch) =
           (\<lparr>jobs = (jobs registry_empty)(1 \<mapsto> newJob 1 5), nextJobID = wrap64 (1 + 1)\<rparr>,
            JSON 201 (JObj [(''job_id'', JInt 1)]),
            Some (newJob 1 5, \<lparr>Count = 0, Visits = []\<rparr>))"
    by simp
  with d r show ?thesis by simp
qed

end
